theory Spec2Isabelle
  imports Complex_Main
begin

section \<open>The slicing preview: chunk ranges (utils/preview.py)\<close>

text \<open>
  The preview object of \<^verbatim>\<open>SlicingPreview.__init__\<close>.  Python integers are unbounded, so
  every integer field is an \<^typ>\<open>int\<close>.  A silence tag is a pair \<open>(start, end)\<close> of hop
  indices, read by the code as \<^verbatim>\<open>tag[0]\<close> and \<^verbatim>\<open>tag[1]\<close>.  The resampled samples are
  kept abstract in the type variable.
\<close>

record 's SlicingPreview =
  filename :: string
  sil_tags :: "(int \<times> int) list"
  hop_size :: int
  total_frames :: int
  waveform_shape :: int
  theme :: string
  target_sr :: int
  audio_samples :: "'s list"

text \<open>\<^verbatim>\<open>_apply_slice\<close>: the two-element list \<^verbatim>\<open>[begin * hop, min(shape, end * hop)]\<close> as a pair.\<close>

definition apply_slice :: "'s SlicingPreview \<Rightarrow> int \<Rightarrow> int \<Rightarrow> int \<times> int" where
  "apply_slice self b e = (b * hop_size self, min (waveform_shape self) (e * hop_size self))"

text \<open>
  \<^verbatim>\<open>_get_ranges\<close>.  The guard on the empty list comes first, so \<^verbatim>\<open>tags[0]\<close> and
  \<^verbatim>\<open>tags[-1]\<close> are only read on a non-empty list; the loop over
  \<^verbatim>\<open>range(len(tags) - 1)\<close> reads indices \<open>i\<close> and \<open>i + 1\<close>, both in range.
\<close>

definition get_ranges :: "'s SlicingPreview \<Rightarrow> (int \<times> int) list \<Rightarrow> (int \<times> int) list" where
  "get_ranges self tags =
     (if length tags = 0 then []
      else
        (if fst (tags ! 0) > 0 then [apply_slice self 0 (fst (tags ! 0))] else []) @
        map (\<lambda>i. apply_slice self (snd (tags ! i)) (fst (tags ! (i + 1)))) [0..<length tags - 1] @
        (if snd (last tags) < total_frames self
         then [apply_slice self (snd (last tags)) (total_frames self)] else []))"

subsection \<open>The specification's complement of the episodes\<close>

text \<open>
  The segmenter of the specification, in its own words: a chunk before the first episode
  when speech precedes it, one between each two consecutive episodes, one after the last
  episode when frames remain, and the whole buffer when there is no episode at all.
\<close>

fun between_episodes :: "(int \<times> int) list \<Rightarrow> (int \<times> int) list" where
  "between_episodes (a # b # rest) = (snd a, fst b) # between_episodes (b # rest)"
| "between_episodes _ = []"

definition complement_ranges :: "(int \<times> int) list \<Rightarrow> int \<Rightarrow> (int \<times> int) list" where
  "complement_ranges eps n_frames =
     (case eps of
        [] \<Rightarrow> [(0, n_frames)]
      | e0 # _ \<Rightarrow>
          (if 0 < fst e0 then [(0, fst e0)] else []) @
          between_episodes eps @
          (if snd (last eps) < n_frames then [(snd (last eps), n_frames)] else []))"

text \<open>
  Episodes are ordered, do not overlap and are not adjacent: each one ends strictly before
  the next one starts; each has \<open>start \<le> end\<close>; all lie within \<open>[0, total]\<close>.
\<close>

fun separated :: "(int \<times> int) list \<Rightarrow> bool" where
  "separated (a # b # rest) = (snd a < fst b \<and> separated (b # rest))"
| "separated _ = True"

definition episodes_ok :: "(int \<times> int) list \<Rightarrow> int \<Rightarrow> bool" where
  "episodes_ok eps n_frames =
     (list_all (\<lambda>t. fst t \<le> snd t) eps \<and> separated eps \<and>
      (case eps of [] \<Rightarrow> True | e0 # _ \<Rightarrow> 0 \<le> fst e0 \<and> snd (last eps) \<le> n_frames))"

text \<open>A frame position lies in a half-open range.\<close>

definition in_range :: "int \<Rightarrow> int \<times> int \<Rightarrow> bool" where
  "in_range x r = (fst r \<le> x \<and> x < snd r)"

text \<open>Ranges in emission order: each is non-empty and ends no later than the next begins.\<close>

fun ranges_increasing :: "(int \<times> int) list \<Rightarrow> bool" where
  "ranges_increasing [] = True"
| "ranges_increasing [r] = (fst r < snd r)"
| "ranges_increasing (r # q # rest) = (fst r < snd r \<and> snd r \<le> fst q \<and> ranges_increasing (q # rest))"

text \<open>
  Two auxiliary notions for the proofs: the uncovered ranges of \<open>[lo, n)\<close> to the right of
  a lower bound, by recursion over the episodes, and the well-formedness of the episodes
  relative to that bound.
\<close>

fun uncovered_from :: "int \<Rightarrow> (int \<times> int) list \<Rightarrow> int \<Rightarrow> (int \<times> int) list" where
  "uncovered_from lo [] n = (if lo < n then [(lo, n)] else [])"
| "uncovered_from lo (t # rest) n = (if lo < fst t then [(lo, fst t)] else []) @ uncovered_from (snd t) rest n"

definition chain_ok :: "int \<Rightarrow> (int \<times> int) list \<Rightarrow> int \<Rightarrow> bool" where
  "chain_ok lo eps n = (list_all (\<lambda>t. fst t \<le> snd t) eps \<and> separated eps \<and>
      (eps \<noteq> [] \<longrightarrow> lo \<le> fst (hd eps) \<and> snd (last eps) \<le> n))"

text \<open>
  Two concrete previews: the scenario of the specification (10 s at 1000 Hz, hops of 10
  frames, one episode of hops 300 to 500) and a short buffer whose waveform is shorter than
  its hop count suggests.
\<close>

definition scenario_preview :: "unit SlicingPreview" where
  "scenario_preview = \<lparr>filename = ''a.wav'', sil_tags = [(300, 500)], hop_size = 10,
     total_frames = 1000, waveform_shape = 10000, theme = ''dark'', target_sr = 6000,
     audio_samples = []\<rparr>"

definition short_preview :: "unit SlicingPreview" where
  "short_preview = \<lparr>filename = ''a.wav'', sil_tags = [(1, 2)], hop_size = 2,
     total_frames = 3, waveform_shape = 3, theme = ''dark'', target_sr = 6000,
     audio_samples = []\<rparr>"

section \<open>The segmenter of the specification\<close>

text \<open>
  Modelled from the spec: the code that emits the chunks, \<^verbatim>\<open>Slicer.slice\<close> of \<^verbatim>\<open>slicer2\<close>, is
  not among the source files.  This is the Chunk of section 3: a frame range, end
  exclusive, with the extracted samples of all channels.
\<close>

record 's chunk =
  start_frame :: int
  end_frame :: int
  samples :: "'s list list"

text \<open>
  Modelled from the spec: the total frame count of a SampleBuffer (section 3), given as the
  list of its channels; \<^verbatim>\<open>slicer2\<close> is not among the source files.
\<close>

definition buffer_frames :: "'s list list \<Rightarrow> int" where
  "buffer_frames buffer = (case buffer of [] \<Rightarrow> 0 | ch # _ \<Rightarrow> int (length ch))"

text \<open>
  Modelled from the spec: the invariant of a SampleBuffer (section 3), at least one channel
  and all channels of equal length; \<^verbatim>\<open>slicer2\<close> is not among the source files.
\<close>

definition buffer_ok :: "'s list list \<Rightarrow> bool" where
  "buffer_ok buffer = (buffer \<noteq> [] \<and> list_all (\<lambda>ch. int (length ch) = buffer_frames buffer) buffer)"

text \<open>
  Modelled from the spec: the extraction of section 4.4, which copies all channels for the
  given frame range; \<^verbatim>\<open>slicer2\<close> is not among the source files.
\<close>

definition extract_chunk :: "'s list list \<Rightarrow> int \<times> int \<Rightarrow> 's chunk" where
  "extract_chunk buffer r =
     \<lparr>start_frame = fst r, end_frame = snd r,
      samples = map (\<lambda>ch. take (nat (snd r - fst r)) (drop (nat (fst r)) ch)) buffer\<rparr>"

text \<open>
  Modelled from the spec: the Segmenter of section 4.4, \<^verbatim>\<open>segment(buffer, accepted_episodes)\<close>,
  whose code (\<^verbatim>\<open>Slicer.slice\<close> of \<^verbatim>\<open>slicer2\<close>) is not among the source files.  The chunk
  ranges are the complement of the accepted episodes within \<open>[0, total_frames)\<close>, and the
  whole buffer when there is no episode; each chunk is extracted from the buffer.
\<close>

definition segment :: "'s list list \<Rightarrow> (int \<times> int) list \<Rightarrow> 's chunk list" where
  "segment buffer eps = map (extract_chunk buffer) (complement_ranges eps (buffer_frames buffer))"

section \<open>Paths and strings (Python's posixpath and str, Qt's QFileInfo)\<close>

text \<open>
  Strings are lists of characters.  The path functions are those of \<^verbatim>\<open>posixpath\<close>, the
  \<^verbatim>\<open>os.path\<close> of a POSIX system, with \<open>/\<close> as the only separator.
\<close>

text \<open>\<^verbatim>\<open>s.rfind(c)\<close> as the pair of the text before and from the last occurrence of \<open>c\<close>.\<close>

definition rsplit_at :: "char \<Rightarrow> string \<Rightarrow> (string \<times> string) option" where
  "rsplit_at c s =
     (if c \<in> set s
      then Some (rev (tl (dropWhile (\<lambda>x. x \<noteq> c) (rev s))), c # rev (takeWhile (\<lambda>x. x \<noteq> c) (rev s)))
      else None)"

text \<open>\<^verbatim>\<open>os.path.basename\<close>: what follows the last separator.\<close>

definition basename :: "string \<Rightarrow> string" where
  "basename p = rev (takeWhile (\<lambda>x. x \<noteq> CHR ''/'') (rev p))"

text \<open>
  \<^verbatim>\<open>os.path.dirname\<close>: the text up to and including the last separator, with trailing
  separators stripped unless it consists of separators only.
\<close>

definition dirname :: "string \<Rightarrow> string" where
  "dirname p =
     (let head = rev (dropWhile (\<lambda>x. x \<noteq> CHR ''/'') (rev p))
      in if head \<noteq> [] \<and> \<not> list_all (\<lambda>x. x = CHR ''/'') head
         then rev (dropWhile (\<lambda>x. x = CHR ''/'') (rev head))
         else head)"

text \<open>\<^verbatim>\<open>os.path.join(a, b)\<close> with two arguments.\<close>

definition path_join :: "string \<Rightarrow> string \<Rightarrow> string" where
  "path_join a b =
     (if b \<noteq> [] \<and> hd b = CHR ''/'' then b
      else if a = [] \<or> last a = CHR ''/'' then a @ b
      else a @ ''/'' @ b)"

text \<open>
  \<^verbatim>\<open>os.path.splitext\<close>: the extension starts at the last dot of the last component, unless
  only dots precede it there.
\<close>

definition splitext :: "string \<Rightarrow> string \<times> string" where
  "splitext p =
     (case rsplit_at CHR ''.'' p of
        None \<Rightarrow> (p, [])
      | Some (stem, ext) \<Rightarrow>
          if CHR ''/'' \<in> set ext then (p, [])
          else if list_all (\<lambda>x. x = CHR ''.'') (basename stem) then (p, [])
          else (stem, ext))"

text \<open>\<^verbatim>\<open>s.rsplit('.', maxsplit=1)[0]\<close>: the text before the last dot, or all of it.\<close>

definition rsplit_dot_first :: "string \<Rightarrow> string" where
  "rsplit_dot_first s = (case rsplit_at CHR ''.'' s of None \<Rightarrow> s | Some (stem, _) \<Rightarrow> stem)"

text \<open>\<^verbatim>\<open>str.lower\<close> on the ASCII letters.\<close>

definition lower_char :: "char \<Rightarrow> char" where
  "lower_char c =
     (if of_char c \<ge> (65::nat) \<and> of_char c \<le> (90::nat) then char_of (of_char c + (32::nat)) else c)"

definition lower :: "string \<Rightarrow> string" where
  "lower s = map lower_char s"

text \<open>The \<^verbatim>\<open>%d\<close> rendering of a non-negative index.\<close>

fun show_nat :: "nat \<Rightarrow> string" where
  "show_nat n =
     (if n < 10 then [char_of (48 + n)]
      else show_nat (n div 10) @ [char_of (48 + n mod 10)])"

declare show_nat.simps [simp del]

text \<open>\<^verbatim>\<open>QFileInfo(path).fileName()\<close>: the name without the path.\<close>

definition fileName :: "string \<Rightarrow> string" where
  "fileName p = basename p"

section \<open>The main window (gui/mainwindow.py)\<close>

text \<open>
  A task-list item carries its display text and, at the custom role, the full path.  A
  message box is recorded with its title and text.  The widgets that \<^verbatim>\<open>_setProcessing\<close>
  enables and disables are named by a datatype.
\<close>

record item =
  item_text :: string
  item_path :: string

datatype dialog = Warning string string | Information string string

datatype widget =
  BtnStart | BtnPreview | BtnAddFiles | LwTaskList | BtnClearList | LeThreshold |
  LeMinLen | LeMinInterval | LeHopSize | LeMaxSilence | LeOutputDir | BtnBrowse

text \<open>
  The window: the contents of its widgets, the state variables of \<^verbatim>\<open>__init__\<close>, and the
  message boxes shown so far.  A worker thread is recorded by the list of file names it was
  created with.
\<close>

record window =
  app_name :: string
  lwTaskList :: "item list"
  selected :: "nat list"
  leThreshold :: string
  leMinLen :: string
  leMinInterval :: string
  leHopSize :: string
  leMaxSilence :: string
  leOutputDir :: string
  btnStart_text :: string
  enabled :: "widget \<Rightarrow> bool"
  progress_maximum :: int
  progress_value :: int
  workers :: "string list list"
  workCount :: int
  workFinished :: int
  processing :: bool
  dialogs :: "dialog list"

definition warningProcessNotFinished :: "window \<Rightarrow> window" where
  "warningProcessNotFinished s =
     s\<lparr>dialogs := dialogs s @ [Warning (app_name s) ''Please wait for slicing to complete!'']\<rparr>"

definition setEnabled :: "widget \<Rightarrow> bool \<Rightarrow> window \<Rightarrow> window" where
  "setEnabled w b s = s\<lparr>enabled := (enabled s)(w := b)\<rparr>"

definition setProcessing :: "bool \<Rightarrow> window \<Rightarrow> window" where
  "setProcessing p s =
     (let is_enabled = \<not> p;
          s = s\<lparr>btnStart_text := (if p then ''Slicing...'' else ''Start'')\<rparr>;
          s = setEnabled BtnStart is_enabled s;
          s = setEnabled BtnPreview is_enabled s;
          s = setEnabled BtnAddFiles is_enabled s;
          s = setEnabled LwTaskList is_enabled s;
          s = setEnabled BtnClearList is_enabled s;
          s = setEnabled LeThreshold is_enabled s;
          s = setEnabled LeMinLen is_enabled s;
          s = setEnabled LeMinInterval is_enabled s;
          s = setEnabled LeHopSize is_enabled s;
          s = setEnabled LeMaxSilence is_enabled s;
          s = setEnabled LeOutputDir is_enabled s;
          s = setEnabled BtnBrowse is_enabled s
      in s\<lparr>processing := p\<rparr>)"

text \<open>\<^verbatim>\<open>_on_browse_output_dir\<close>, given the directory the dialog returned.\<close>

definition on_browse_output_dir :: "string \<Rightarrow> window \<Rightarrow> window" where
  "on_browse_output_dir path s = (if path \<noteq> [] then s\<lparr>leOutputDir := path\<rparr> else s)"

text \<open>\<^verbatim>\<open>_on_add_audio_files\<close>, given the paths the dialog returned.\<close>

definition path_item :: "string \<Rightarrow> item" where
  "path_item path = \<lparr>item_text = fileName path, item_path = path\<rparr>"

definition on_add_audio_files :: "string list \<Rightarrow> window \<Rightarrow> window" where
  "on_add_audio_files paths s =
     (if processing s then warningProcessNotFinished s
      else s\<lparr>lwTaskList := lwTaskList s @ map path_item paths\<rparr>)"

text \<open>
  \<^verbatim>\<open>_on_remove_audio_file\<close> binds the list's \<^verbatim>\<open>selectedItems\<close> method to a local name,
  without calling it, and returns.
\<close>

definition on_remove_audio_file :: "window \<Rightarrow> window" where
  "on_remove_audio_file s = (let selectedItems = (\<lambda>u::unit. map (\<lambda>i. lwTaskList s ! i) (selected s)) in s)"

definition on_clear_audio_list :: "window \<Rightarrow> window" where
  "on_clear_audio_list s =
     (if processing s then warningProcessNotFinished s
      else s\<lparr>lwTaskList := [], selected := []\<rparr>)"

definition on_about :: "window \<Rightarrow> window" where
  "on_about s =
     s\<lparr>dialogs := dialogs s @
        [Information ''About'' (''Audio Slicer v1.1.0'' @ [CHR 0x0A] @ ''Copyright 2020-2023 OpenVPI Team'')]\<rparr>"

text \<open>
  \<^verbatim>\<open>_on_start\<close>: the two guards, then the paths are collected from the items, the progress
  bar and the counters are reset, the widgets are disabled, and one worker thread is
  created with the paths, started, and kept in \<^verbatim>\<open>workers\<close>.
\<close>

definition on_start :: "window \<Rightarrow> window" where
  "on_start s =
     (if processing s then warningProcessNotFinished s
      else
        let item_count = int (length (lwTaskList s)) in
        if item_count = 0 then s
        else
          let paths = map (\<lambda>i. item_path (lwTaskList s ! i)) [0..<nat item_count];
              s = s\<lparr>progress_maximum := item_count\<rparr>;
              s = s\<lparr>progress_value := 0\<rparr>;
              s = s\<lparr>workCount := item_count\<rparr>;
              s = s\<lparr>workFinished := 0\<rparr>;
              s = setProcessing True s
          in s\<lparr>workers := workers s @ [paths]\<rparr>)"

definition oneFinished :: "window \<Rightarrow> window" where
  "oneFinished s =
     (let s = s\<lparr>workFinished := workFinished s + 1\<rparr>
      in s\<lparr>progress_value := workFinished s\<rparr>)"

definition threadFinished :: "window \<Rightarrow> window" where
  "threadFinished s =
     (let s = s\<lparr>workers := []\<rparr>;
          s = setProcessing False s
      in s\<lparr>dialogs := dialogs s @ [Information (app_name s) ''Slicing complete!'']\<rparr>)"

subsection \<open>Event handlers\<close>

text \<open>An event carries its accepted flag; a URL says whether it is a local file and which.\<close>

record event =
  accepted :: bool

record url =
  isLocalFile :: bool
  toLocalFile :: string

definition closeEvent :: "event \<Rightarrow> window \<Rightarrow> event \<times> window" where
  "closeEvent ev s =
     (if processing s then (ev\<lparr>accepted := False\<rparr>, warningProcessNotFinished s) else (ev, s))"

text \<open>The loop of \<^verbatim>\<open>dragEnterEvent\<close>, which leaves at the first local .wav file.\<close>

fun has_wav :: "url list \<Rightarrow> bool" where
  "has_wav [] = False"
| "has_wav (u # urls) =
     (if \<not> isLocalFile u then has_wav urls
      else
        let path = toLocalFile u; ext = snd (splitext path) in
        if lower ext = ''.wav'' then True else has_wav urls)"

definition dragEnterEvent :: "url list \<Rightarrow> event \<Rightarrow> event" where
  "dragEnterEvent urls ev = (if has_wav urls then ev\<lparr>accepted := True\<rparr> else ev)"

text \<open>The loop of \<^verbatim>\<open>dropEvent\<close>, with its two \<^verbatim>\<open>continue\<close> branches.\<close>

fun dropEvent :: "url list \<Rightarrow> window \<Rightarrow> window" where
  "dropEvent [] s = s"
| "dropEvent (u # urls) s =
     (if \<not> isLocalFile u then dropEvent urls s
      else
        let path = toLocalFile u; ext = snd (splitext path) in
        if lower ext \<noteq> ''.wav'' then dropEvent urls s
        else dropEvent urls (s\<lparr>lwTaskList := lwTaskList s @ [path_item path]\<rparr>))"

subsection \<open>Reachable window states\<close>

text \<open>
  The window after \<^verbatim>\<open>__init__\<close>: no worker, nothing in progress, the progress bar at 0
  of 100, no message box shown yet; the task list, the texts of the fields and the enabled
  flags are what the form holds.
\<close>

definition initial :: "window \<Rightarrow> bool" where
  "initial s = (workers s = [] \<and> workCount s = 0 \<and> workFinished s = 0 \<and> \<not> processing s \<and>
     progress_maximum s = 100 \<and> progress_value s = 0 \<and> dialogs s = [])"

text \<open>
  The states the handlers lead to.  The two signals of a worker thread may arrive at any
  moment, which only enlarges the set of reachable states.
\<close>

inductive reachable :: "window \<Rightarrow> bool" where
  init: "initial s \<Longrightarrow> reachable s"
| browse: "reachable s \<Longrightarrow> reachable (on_browse_output_dir path s)"
| add: "reachable s \<Longrightarrow> reachable (on_add_audio_files paths s)"
| remove: "reachable s \<Longrightarrow> reachable (on_remove_audio_file s)"
| clear: "reachable s \<Longrightarrow> reachable (on_clear_audio_list s)"
| about: "reachable s \<Longrightarrow> reachable (on_about s)"
| start: "reachable s \<Longrightarrow> reachable (on_start s)"
| one_finished: "reachable s \<Longrightarrow> reachable (oneFinished s)"
| thread_finished: "reachable s \<Longrightarrow> reachable (threadFinished s)"
| close: "reachable s \<Longrightarrow> reachable (snd (closeEvent ev s))"
| drop: "reachable s \<Longrightarrow> reachable (dropEvent urls s)"

section \<open>The worker thread (WorkThread.run)\<close>

text \<open>
  An array as \<^verbatim>\<open>soundfile.read\<close> returns it: one-dimensional for a mono file, and of shape
  (frames, channels), in row-major order, otherwise.
\<close>

datatype 's ndarray = Arr1 "'s list" | Arr2 nat nat "'s list"

fun ndim :: "'s ndarray \<Rightarrow> nat" where
  "ndim (Arr1 _) = 1"
| "ndim (Arr2 _ _ _) = 2"

text \<open>\<^verbatim>\<open>a.T\<close>: the transpose of a two-dimensional array, the array itself otherwise.\<close>

fun T :: "'s ndarray \<Rightarrow> 's ndarray" where
  "T (Arr1 xs) = Arr1 xs"
| "T (Arr2 r c xs) = Arr2 c r (concat (map (\<lambda>j. map (\<lambda>i. xs ! (i * c + j)) [0..<r]) [0..<c]))"

text \<open>The channel count of an array in the layout of \<^verbatim>\<open>soundfile\<close>.\<close>

fun channels :: "'s ndarray \<Rightarrow> nat" where
  "channels (Arr1 _) = 1"
| "channels (Arr2 _ c _) = c"

datatype error = LibsndfileError string | ValueError string | SlicerError string

text \<open>The arguments the \<^verbatim>\<open>Slicer\<close> of \<^verbatim>\<open>slicer2\<close> is constructed with.\<close>

record 'f slicer =
  sr :: int
  threshold :: 'f
  min_length :: int
  min_interval :: int
  slicer_hop_size :: int
  max_sil_kept :: int

text \<open>
  What the loop calls outside this repository's two source files: \<^verbatim>\<open>soundfile\<close>, the
  built-in \<^verbatim>\<open>float\<close> and \<^verbatim>\<open>int\<close>, the two methods of \<^verbatim>\<open>Slicer\<close>, \<^verbatim>\<open>os.path.abspath\<close>
  and \<^verbatim>\<open>QDir\<close>.  Each is a parameter; those that can raise return a sum, and those that
  read or change the file system take the world \<open>'w\<close>.
\<close>

record ('s, 'f, 'w) env =
  sf_read :: "'w \<Rightarrow> string \<Rightarrow> error + ('s ndarray \<times> int)"
  sf_write :: "string \<Rightarrow> 's ndarray \<Rightarrow> int \<Rightarrow> 'w \<Rightarrow> error + 'w"
  py_float :: "string \<Rightarrow> error + 'f"
  py_int :: "string \<Rightarrow> error + int"
  get_slice_tags :: "'f slicer \<Rightarrow> 's ndarray \<Rightarrow> error + ((int \<times> int) list \<times> int)"
  slice :: "'f slicer \<Rightarrow> 's ndarray \<Rightarrow> (int \<times> int) list \<Rightarrow> int \<Rightarrow> error + 's ndarray list"
  abspath :: "string \<Rightarrow> string"
  qdir_exists :: "'w \<Rightarrow> string \<Rightarrow> bool"
  qdir_mkpath :: "string \<Rightarrow> 'w \<Rightarrow> 'w"

text \<open>
  What the thread has done so far: the directories it asked to create, the files it wrote
  (path, samples, sample rate) and the signals it emitted, in order.
\<close>

datatype 's call = MkPath string | Write string "'s ndarray" int | OneFinished | Finished

record ('s, 'w) wstate =
  world :: 'w
  log :: "'s call list"

text \<open>
  The first half of the loop body, up to \<^verbatim>\<open>chunks\<close>: the file is decoded, transposed when
  it has more than one dimension, the five fields are parsed in argument order, and the
  slicer is run; an exception of the constructor of \<^verbatim>\<open>Slicer\<close> counts as one of its first
  method.  The result is the mono flag, the sample rate and the chunks.
\<close>

definition read_and_slice ::
  "('s, 'f, 'w) env \<Rightarrow> window \<Rightarrow> string \<Rightarrow> 'w \<Rightarrow> error + (bool \<times> int \<times> 's ndarray list)" where
  "read_and_slice env win fname w =
     (case sf_read env w fname of Inl e \<Rightarrow> Inl e
      | Inr (audio0, rate) \<Rightarrow>
        let is_mono = \<not> (ndim audio0 > 1);
            audio = (if ndim audio0 > 1 then T audio0 else audio0) in
        case py_float env (leThreshold win) of Inl e \<Rightarrow> Inl e
        | Inr th \<Rightarrow>
        case py_int env (leMinLen win) of Inl e \<Rightarrow> Inl e
        | Inr ml \<Rightarrow>
        case py_int env (leMinInterval win) of Inl e \<Rightarrow> Inl e
        | Inr mi \<Rightarrow>
        case py_int env (leHopSize win) of Inl e \<Rightarrow> Inl e
        | Inr hs \<Rightarrow>
        case py_int env (leMaxSilence win) of Inl e \<Rightarrow> Inl e
        | Inr ms \<Rightarrow>
        let slicer = \<lparr>sr = rate, threshold = th, min_length = ml, min_interval = mi,
                       slicer_hop_size = hs, max_sil_kept = ms\<rparr> in
        case get_slice_tags env slicer audio of Inl e \<Rightarrow> Inl e
        | Inr (tags, n_frames) \<Rightarrow>
        case slice env slicer audio tags n_frames of Inl e \<Rightarrow> Inl e
        | Inr chunks \<Rightarrow> Inr (is_mono, rate, chunks))"

text \<open>The output path of chunk \<open>i\<close> of a file.\<close>

definition chunk_path :: "string \<Rightarrow> string \<Rightarrow> nat \<Rightarrow> string" where
  "chunk_path out_dir fname i =
     path_join out_dir (rsplit_dot_first (basename fname) @ ''_'' @ show_nat i @ ''.wav'')"

text \<open>
  The loop over \<^verbatim>\<open>enumerate(chunks)\<close>, from index \<open>i\<close> on: a chunk of a file that is not mono
  is transposed back, and written with the sample rate of the source.  A write that raises
  ends the loop.
\<close>

fun write_chunks ::
  "('s, 'f, 'w) env \<Rightarrow> string \<Rightarrow> string \<Rightarrow> bool \<Rightarrow> int \<Rightarrow> nat \<Rightarrow> 's ndarray list \<Rightarrow>
   ('s, 'w) wstate \<Rightarrow> error option \<times> ('s, 'w) wstate" where
  "write_chunks env out_dir fname is_mono rate i [] st = (None, st)"
| "write_chunks env out_dir fname is_mono rate i (chunk # chunks) st =
     (let path = chunk_path out_dir fname i;
          chunk = (if \<not> is_mono then T chunk else chunk) in
      case sf_write env path chunk rate (world st) of
        Inl e \<Rightarrow> (Some e, st)
      | Inr w \<Rightarrow>
          write_chunks env out_dir fname is_mono rate (Suc i) chunks
            (st\<lparr>world := w, log := log st @ [Write path chunk rate]\<rparr>))"

text \<open>The choice of the output directory, which creates it when it is given and missing.\<close>

definition choose_out_dir ::
  "('s, 'f, 'w) env \<Rightarrow> window \<Rightarrow> string \<Rightarrow> ('s, 'w) wstate \<Rightarrow> string \<times> ('s, 'w) wstate" where
  "choose_out_dir env win fname st =
     (let out_dir = leOutputDir win in
      if out_dir = [] then (dirname (abspath env fname), st)
      else if \<not> qdir_exists env (world st) out_dir
           then (out_dir, st\<lparr>world := qdir_mkpath env out_dir (world st),
                              log := log st @ [MkPath out_dir]\<rparr>)
           else (out_dir, st))"

text \<open>One pass of the loop of \<^verbatim>\<open>run\<close>.\<close>

definition process_file ::
  "('s, 'f, 'w) env \<Rightarrow> window \<Rightarrow> string \<Rightarrow> ('s, 'w) wstate \<Rightarrow> error option \<times> ('s, 'w) wstate" where
  "process_file env win fname st =
     (case read_and_slice env win fname (world st) of
        Inl e \<Rightarrow> (Some e, st)
      | Inr (is_mono, rate, chunks) \<Rightarrow>
          let (out_dir, st) = choose_out_dir env win fname st in
          case write_chunks env out_dir fname is_mono rate 0 chunks st of
            (Some e, st) \<Rightarrow> (Some e, st)
          | (None, st) \<Rightarrow> (None, st\<lparr>log := log st @ [OneFinished]\<rparr>))"

text \<open>\<^verbatim>\<open>run\<close>: the files in order; an exception leaves the loop and the function.\<close>

fun run ::
  "('s, 'f, 'w) env \<Rightarrow> window \<Rightarrow> string list \<Rightarrow> ('s, 'w) wstate \<Rightarrow> error option \<times> ('s, 'w) wstate" where
  "run env win [] st = (None, st)"
| "run env win (fname # fnames) st =
     (case process_file env win fname st of
        (Some e, st) \<Rightarrow> (Some e, st)
      | (None, st) \<Rightarrow> run env win fnames st)"

text \<open>
  The thread: \<^verbatim>\<open>run\<close>, and the signal \<^verbatim>\<open>finished\<close> of \<^verbatim>\<open>QThread\<close> once \<^verbatim>\<open>run\<close> has returned.
  What the thread does after an exception has left \<^verbatim>\<open>run\<close> is decided by the Qt binding;
  nothing is recorded for it here.
\<close>

definition thread_exec ::
  "('s, 'f, 'w) env \<Rightarrow> window \<Rightarrow> string list \<Rightarrow> ('s, 'w) wstate \<Rightarrow> error option \<times> ('s, 'w) wstate" where
  "thread_exec env win fnames st =
     (case run env win fnames st of
        (Some e, st) \<Rightarrow> (Some e, st)
      | (None, st) \<Rightarrow> (None, st\<lparr>log := log st @ [Finished]\<rparr>))"

text \<open>The signals among the calls, and their delivery to the slots of the window.\<close>

fun is_signal :: "'s call \<Rightarrow> bool" where
  "is_signal OneFinished = True"
| "is_signal Finished = True"
| "is_signal _ = False"

fun slot :: "'s call \<Rightarrow> window \<Rightarrow> window" where
  "slot OneFinished s = oneFinished s"
| "slot Finished s = threadFinished s"
| "slot _ s = s"

definition deliver :: "'s call list \<Rightarrow> window \<Rightarrow> window" where
  "deliver cs s = fold slot (filter is_signal cs) s"

text \<open>
  The thread with the behaviour of the Qt binding as a parameter: whether \<^verbatim>\<open>finished\<close> is
  emitted as well when an exception has left \<^verbatim>\<open>run\<close>.
\<close>

definition qthread ::
  "bool \<Rightarrow> ('s, 'f, 'w) env \<Rightarrow> window \<Rightarrow> string list \<Rightarrow> ('s, 'w) wstate \<Rightarrow>
   error option \<times> ('s, 'w) wstate" where
  "qthread finished_after_raise env win fnames st =
     (case run env win fnames st of
        (None, st) \<Rightarrow> (None, st\<lparr>log := log st @ [Finished]\<rparr>)
      | (Some e, st) \<Rightarrow>
          (Some e, if finished_after_raise then st\<lparr>log := log st @ [Finished]\<rparr> else st))"

subsection \<open>A completed file\<close>

text \<open>
  The files a source file is expected to produce: chunk \<open>i\<close>, transposed back when the source
  has more than one dimension, under the name \<^verbatim>\<open>{stem}_{i}.wav\<close> in the output directory,
  with the sample rate of the source.
\<close>

definition chunk_outputs ::
  "string \<Rightarrow> string \<Rightarrow> bool \<Rightarrow> int \<Rightarrow> 's ndarray list \<Rightarrow> (string \<times> 's ndarray \<times> int) list" where
  "chunk_outputs out_dir fname multi rate chunks =
     map (\<lambda>i. (path_join out_dir (rsplit_dot_first (basename fname) @ ''_'' @ show_nat i @ ''.wav''),
               (if multi then T (chunks ! i) else chunks ! i), rate))
       [0..<length chunks]"

text \<open>Writing a list of files one after the other, each in the world the previous one left.\<close>

fun write_all ::
  "('s, 'f, 'w) env \<Rightarrow> (string \<times> 's ndarray \<times> int) list \<Rightarrow> 'w \<Rightarrow> error + 'w" where
  "write_all env [] w = Inr w"
| "write_all env ((p, d, r) # outs) w =
     (case sf_write env p d r w of Inl e \<Rightarrow> Inl e | Inr w' \<Rightarrow> write_all env outs w')"

text \<open>
  A file is completed: it decodes, the five fields parse, the slicer returns tags and chunks
  for the buffer (transposed when it has more than one dimension), the output directory is
  the one given, created when missing, or the directory of the source, and every expected
  output is written.  The thread has then made these calls and emitted one signal.
\<close>

inductive file_done ::
  "('s, 'f, 'w) env \<Rightarrow> window \<Rightarrow> string \<Rightarrow> ('s, 'w) wstate \<Rightarrow> ('s, 'w) wstate \<Rightarrow> bool" where
  "\<lbrakk> sf_read env (world st) fname = Inr (audio, rate);
     py_float env (leThreshold win) = Inr th;
     py_int env (leMinLen win) = Inr ml;
     py_int env (leMinInterval win) = Inr mi;
     py_int env (leHopSize win) = Inr hs;
     py_int env (leMaxSilence win) = Inr ms;
     k = \<lparr>sr = rate, threshold = th, min_length = ml, min_interval = mi,
          slicer_hop_size = hs, max_sil_kept = ms\<rparr>;
     a = (if ndim audio > 1 then T audio else audio);
     get_slice_tags env k a = Inr (tags, n);
     slice env k a tags n = Inr chunks;
     out_dir = (if leOutputDir win = [] then dirname (abspath env fname) else leOutputDir win);
     missing = (leOutputDir win \<noteq> [] \<and> \<not> qdir_exists env (world st) (leOutputDir win));
     w1 = (if missing then qdir_mkpath env (leOutputDir win) (world st) else world st);
     outs = chunk_outputs out_dir fname (ndim audio > 1) rate chunks;
     write_all env outs w1 = Inr w2 \<rbrakk>
   \<Longrightarrow> file_done env win fname st
         \<lparr>world = w2,
          log = log st @ (if missing then [MkPath (leOutputDir win)] else []) @
                map (\<lambda>(p, d, r). Write p d r) outs @ [OneFinished]\<rparr>"

subsection \<open>Auxiliary notions for the properties\<close>

text \<open>
  What every reachable window state satisfies: while a run is in progress there is exactly
  one worker and the task list is not empty; otherwise there is no worker.
\<close>

definition run_invariant :: "window \<Rightarrow> bool" where
  "run_invariant s =
     ((processing s \<longrightarrow> length (workers s) = 1 \<and> lwTaskList s \<noteq> []) \<and>
      (\<not> processing s \<longrightarrow> workers s = []))"

text \<open>The test both drag-and-drop loops apply to a URL.\<close>

definition wav_url :: "url \<Rightarrow> bool" where
  "wav_url u = (isLocalFile u \<and> lower (snd (splitext (toLocalFile u))) = ''.wav'')"

text \<open>The number of files \<^verbatim>\<open>run\<close> processes to the end before it returns or raises.\<close>

fun completed ::
  "('s, 'f, 'w) env \<Rightarrow> window \<Rightarrow> string list \<Rightarrow> ('s, 'w) wstate \<Rightarrow> nat" where
  "completed env win [] st = 0"
| "completed env win (fname # fnames) st =
     (case process_file env win fname st of
        (Some e, st) \<Rightarrow> 0
      | (None, st) \<Rightarrow> Suc (completed env win fnames st))"

text \<open>
  A chunk has the layout of the array the slicer was given: one-dimensional for a
  one-dimensional array, and with as many rows (channels) for a two-dimensional one.
\<close>

fun same_layout :: "'s ndarray \<Rightarrow> 's ndarray \<Rightarrow> bool" where
  "same_layout (Arr1 _) (Arr1 _) = True"
| "same_layout (Arr2 r _ _) (Arr2 r' _ _) = (r = r')"
| "same_layout _ _ = False"

text \<open>The expected outputs from index \<open>i\<close> on, as the chunk loop numbers them.\<close>

definition outs_from ::
  "string \<Rightarrow> string \<Rightarrow> bool \<Rightarrow> int \<Rightarrow> nat \<Rightarrow> 's ndarray list \<Rightarrow> (string \<times> 's ndarray \<times> int) list" where
  "outs_from od f m r i cs =
     map (\<lambda>k. (chunk_path od f (i + k), (if \<not> m then T (cs ! k) else cs ! k), r)) [0..<length cs]"

text \<open>The state of the thread after the first \<open>j\<close> files.\<close>

definition state_after ::
  "('s, 'f, 'w) env \<Rightarrow> window \<Rightarrow> string list \<Rightarrow> ('s, 'w) wstate \<Rightarrow> nat \<Rightarrow> ('s, 'w) wstate" where
  "state_after env win fnames st j = snd (run env win (take j fnames) st)"

section \<open>The preview plot (SlicingPreview._plot_preview)\<close>

text \<open>The two colour palettes of the module.\<close>

record palette =
  primary :: string
  accent :: string
  page_background :: string
  figure_frame :: string
  figure_background :: string
  axis :: string
  title :: string
  grid :: string

definition dark_theme_palette :: palette where
  "dark_theme_palette = \<lparr>primary = ''#8ab4f7'', accent = ''orange'',
     page_background = ''#202124'', figure_frame = ''#404040'',
     figure_background = ''#202020'', axis = ''#A0A0A0'', title = ''#e4e7eb'',
     grid = ''#404040''\<rparr>"

definition light_theme_palette :: palette where
  "light_theme_palette = \<lparr>primary = ''#1a73e8'', accent = ''orange'',
     page_background = ''#f8f9fa'', figure_frame = ''#B0B0B0'',
     figure_background = ''#F0F0F0'', axis = ''#505050'', title = ''#4d5157'',
     grid = ''#B0B0B0''\<rparr>"

text \<open>
  The calls to \<^verbatim>\<open>matplotlib\<close>, in the order the function makes them, with the arguments
  the function computes.  A bar label is placed at a category and a number; Python's
  floating-point quotients are taken as reals.
\<close>

datatype coord = Category string | Number int

datatype 's plot_call =
    RcParam string string
  | Figure int int
  | Subplot nat
  | Plot "real list" "'s list" string
  | FigFacecolor string
  | TightLayout int int int
  | AxFacecolor string
  | SpineColor string string
  | TickParams string string string
  | XLabel string string
  | Grid string
  | Autoscale bool string bool
  | Ylim real real
  | Xlim real real
  | Annotate string real string
  | AxVLine real string
  | Bar "string list" "int list" string
  | Barh "string list" "int list" string
  | Text coord coord int string
  | Title string string
  | Savefig string int

text \<open>The styling of the current axes, the same after each of the three subplots.\<close>

definition style_axes :: "palette \<Rightarrow> 's plot_call list" where
  "style_axes pal =
     [AxFacecolor (figure_background pal),
      SpineColor ''top'' (figure_frame pal), SpineColor ''bottom'' (figure_frame pal),
      SpineColor ''left'' (figure_frame pal), SpineColor ''right'' (figure_frame pal),
      TickParams ''x'' (axis pal) (axis pal), TickParams ''y'' (axis pal) (axis pal)]"

text \<open>\<^verbatim>\<open>max\<close> of a list, which raises on the empty list.\<close>

fun py_max :: "int list \<Rightarrow> int option" where
  "py_max [] = None"
| "py_max (x # xs) = Some (fold max xs x)"

text \<open>The first subplot: the waveform, with its axes styled and labelled.\<close>

definition plot_waveform :: "'s SlicingPreview \<Rightarrow> palette \<Rightarrow> 's plot_call list" where
  "plot_waveform self pal =
     (let time = map (\<lambda>k. real k * (1 / real_of_int (target_sr self)))
                   [0..<length (audio_samples self)]
      in [RcParam ''toolbar'' ''None'', Figure 10 6, Subplot 211,
          Plot time (audio_samples self) (primary pal),
          FigFacecolor (page_background pal), TightLayout 3 2 3] @
         style_axes pal @
         [XLabel ''Time/s'' (axis pal), Grid (grid pal), Autoscale True ''x'' True,
          Ylim (- 1) 1])"

text \<open>The loop over the ranges: a label and two vertical lines for each.\<close>

definition plot_cuts :: "(int \<times> int) list \<Rightarrow> palette \<Rightarrow> 's plot_call list" where
  "plot_cuts ranges pal =
     concat (map (\<lambda>i.
        let start_pos = real_of_int (fst (ranges ! i)) / 1000;
            end_pos = real_of_int (snd (ranges ! i)) / 1000
        in [Annotate (''#'' @ show_nat i) start_pos (accent pal),
            AxVLine start_pos (accent pal), AxVLine end_pos (accent pal)])
      [0..<length ranges])"

text \<open>The third subplot, ``Length Distribution'', from the literals of the source.\<close>

definition plot_distribution :: "palette \<Rightarrow> 's plot_call list option" where
  "plot_distribution pal =
     (let items = [''<2'', ''<5'', ''<8'', ''<11'', ''<14'', ''<17'', ''<20'', ''>=20''];
          vals = [1, 5, 7, 11, 13, 7, 5, 1]
      in case py_max vals of None \<Rightarrow> None
         | Some hi \<Rightarrow> Some (
            [Subplot 223, Ylim 0 (real_of_int hi / (9 / 10)), Bar items vals (primary pal)] @
            map (\<lambda>(a, b). Text (Category a) (Number b) b (title pal)) (zip items vals) @
            style_axes pal @ [Title ''Length Distribution'' (title pal)]))"

text \<open>The fourth subplot, ``Length Ranking List'', from the literals of the source.\<close>

definition plot_ranking :: "palette \<Rightarrow> 's plot_call list option" where
  "plot_ranking pal =
     (let items = [''#5'', ''#1'', ''#6'', ''#8'', ''#12'', ''#7''];
          vals = [21, 28, 32, 36, 45, 51]
      in case py_max vals of None \<Rightarrow> None
         | Some hi \<Rightarrow> Some (
            [Subplot 224, Xlim 0 (real_of_int hi / (9 / 10)), Barh items vals (primary pal)] @
            map (\<lambda>(a, b). Text (Number b) (Category a) b (title pal)) (zip items vals) @
            style_axes pal @ [Title ''Length Ranking List'' (title pal)]))"

text \<open>\<^verbatim>\<open>_plot_preview\<close>: the four parts in order, and the figure saved.\<close>

definition plot_preview :: "'s SlicingPreview \<Rightarrow> string \<Rightarrow> 's plot_call list option" where
  "plot_preview self preview_filename =
     (let pal = (if theme self = ''dark'' then dark_theme_palette else light_theme_palette);
          waveform = plot_waveform self pal;
          cuts = plot_cuts (get_ranges self (sil_tags self)) pal
      in case plot_distribution pal of None \<Rightarrow> None
         | Some distribution \<Rightarrow>
         case plot_ranking pal of None \<Rightarrow> None
         | Some ranking \<Rightarrow>
             Some (waveform @ cuts @ distribution @ ranking @ [Savefig preview_filename 150]))"

text \<open>The items and values of a bar plot.\<close>

fun bar_data :: "'s plot_call \<Rightarrow> (string list \<times> int list) option" where
  "bar_data (Bar items vals _) = Some (items, vals)"
| "bar_data (Barh items vals _) = Some (items, vals)"
| "bar_data _ = None"

section \<open>Concrete instances\<close>

text \<open>
  A window as the form starts, the same with two files added, and with an output directory;
  a stereo buffer of two frames; and an environment in which every file decodes to that
  buffer except \<^verbatim>\<open>/m/b.wav\<close>, the slicer returns its input as the one chunk, every write
  succeeds, and the world is the list of directories created.
\<close>

definition test_window :: window where
  "test_window = \<lparr>app_name = ''Audio Slicer'', lwTaskList = [], selected = [],
     leThreshold = ''-40'', leMinLen = ''5000'', leMinInterval = ''300'', leHopSize = ''10'',
     leMaxSilence = ''1000'', leOutputDir = '''', btnStart_text = ''Start'',
     enabled = (\<lambda>w. True), progress_maximum = 100, progress_value = 0, workers = [],
     workCount = 0, workFinished = 0, processing = False, dialogs = []\<rparr>"

definition loaded_window :: window where
  "loaded_window = on_add_audio_files [''/m/a.wav'', ''/m/c.wav''] test_window"

definition out_window :: window where
  "out_window = test_window\<lparr>leOutputDir := ''/out''\<rparr>"

definition stereo :: "int ndarray" where
  "stereo = Arr2 2 2 [1, 2, 3, 4]"

definition test_env :: "(int, int, string list) env" where
  "test_env = \<lparr>
     sf_read = (\<lambda>w f. if f = ''/m/b.wav'' then Inl (LibsndfileError f) else Inr (stereo, 44100)),
     sf_write = (\<lambda>p c r w. Inr w),
     py_float = (\<lambda>s. Inr 0),
     py_int = (\<lambda>s. Inr 0),
     get_slice_tags = (\<lambda>k a. Inr ([], 0)),
     slice = (\<lambda>k a tags n. Inr [a]),
     abspath = (\<lambda>p. p),
     qdir_exists = (\<lambda>w d. d \<in> set w),
     qdir_mkpath = (\<lambda>d w. d # w)\<rparr>"

definition st0 :: "(int, string list) wstate" where
  "st0 = \<lparr>world = [], log = []\<rparr>"

definition test_urls :: "url list" where
  "test_urls = [\<lparr>isLocalFile = True, toLocalFile = ''/m/a.WAV''\<rparr>,
                \<lparr>isLocalFile = False, toLocalFile = ''''\<rparr>,
                \<lparr>isLocalFile = True, toLocalFile = ''/m/notes.txt''\<rparr>,
                \<lparr>isLocalFile = True, toLocalFile = ''/m/d.wav''\<rparr>]"

text \<open>
  A buffer of two channels and three frames; and an environment as before whose world
  records the directories created and the files written, and whose slicer returns two
  chunks of one frame each.
\<close>

definition two_channels :: "int list list" where
  "two_channels = [[1, 3, 5], [2, 4, 6]]"

definition rec_env :: "(int, int, string list \<times> (string \<times> int ndarray \<times> int) list) env" where
  "rec_env = \<lparr>
     sf_read = (\<lambda>w f. if f = ''/m/b.wav'' then Inl (LibsndfileError f) else Inr (stereo, 44100)),
     sf_write = (\<lambda>p c r w. Inr (fst w, snd w @ [(p, c, r)])),
     py_float = (\<lambda>s. Inr 0),
     py_int = (\<lambda>s. Inr 0),
     get_slice_tags = (\<lambda>k a. Inr ([], 0)),
     slice = (\<lambda>k a tags n. Inr [Arr2 2 1 [1, 2], Arr2 2 1 [3, 4]]),
     abspath = (\<lambda>p. p),
     qdir_exists = (\<lambda>w d. d \<in> set (fst w)),
     qdir_mkpath = (\<lambda>d w. (d # fst w, snd w))\<rparr>"

definition rec_st0 :: "(int, string list \<times> (string \<times> int ndarray \<times> int) list) wstate" where
  "rec_st0 = \<lparr>world = ([], []), log = []\<rparr>"

section \<open>Properties of the chunk ranges\<close>

lemma between_episodes_index:
  "map (\<lambda>i. f (snd (tags ! i)) (fst (tags ! (i + 1)))) [0..<length tags - 1] =
   map (\<lambda>r. f (fst r) (snd r)) (between_episodes tags)"
proof (induction tags rule: between_episodes.induct)
  case (1 a b rest)
  have "[0..<length (a # b # rest) - 1] = 0 # map Suc [0..<length (b # rest) - 1]"
    by (simp add: upt_conv_Cons map_Suc_upt del: upt_Suc)
  with 1 show ?case by (simp add: comp_def del: upt_Suc)
qed simp_all

lemma get_ranges_complement:
  assumes "tags \<noteq> []"
  shows "get_ranges self tags =
     map (\<lambda>r. apply_slice self (fst r) (snd r)) (complement_ranges tags (total_frames self))"
proof -
  from assms obtain t ts where tags: "tags = t # ts" by (cases tags) auto
  have first: "tags ! 0 = t" by (simp add: tags)
  have "get_ranges self tags =
      (if fst t > 0 then [apply_slice self 0 (fst t)] else []) @
      map (\<lambda>r. apply_slice self (fst r) (snd r)) (between_episodes tags) @
      (if snd (last tags) < total_frames self
       then [apply_slice self (snd (last tags)) (total_frames self)] else [])"
    unfolding get_ranges_def between_episodes_index first using assms by simp
  also have "\<dots> = map (\<lambda>r. apply_slice self (fst r) (snd r))
      (complement_ranges tags (total_frames self))"
    unfolding complement_ranges_def tags list.case by simp
  finally show ?thesis .
qed

lemma chain_ok_tail: "chain_ok lo (t # rest) n \<Longrightarrow> chain_ok (snd t) rest n"
  by (cases rest) (auto simp: chain_ok_def)

lemma chain_ok_head: "chain_ok lo (t # rest) n \<Longrightarrow> lo \<le> fst t \<and> fst t \<le> snd t"
  by (auto simp: chain_ok_def)

lemma chain_ok_end: "chain_ok lo (t # rest) n \<Longrightarrow> snd t \<le> n"
proof (induction rest arbitrary: lo t)
  case Nil then show ?case by (simp add: chain_ok_def)
next
  case (Cons u us)
  from chain_ok_tail[OF Cons.prems] have c: "chain_ok (snd t) (u # us) n" .
  from Cons.IH[OF c] chain_ok_head[OF c] show ?case by simp
qed

lemma chain_ok_lower: "chain_ok lo eps n \<Longrightarrow> u \<in> set eps \<Longrightarrow> lo \<le> fst u"
proof (induction eps arbitrary: lo)
  case Nil then show ?case by simp
next
  case (Cons t rest)
  note h = chain_ok_head[OF Cons.prems(1)]
  show ?case
  proof (cases "u = t")
    case True with h show ?thesis by simp
  next
    case False
    with Cons.prems(2) have "u \<in> set rest" by simp
    from Cons.IH[OF chain_ok_tail[OF Cons.prems(1)] this] h show ?thesis by simp
  qed
qed

lemma between_uncovered:
  "separated (t # rest) \<Longrightarrow>
   between_episodes (t # rest) @ (if snd (last (t # rest)) < n then [(snd (last (t # rest)), n)] else [])
     = uncovered_from (snd t) rest n"
  by (induction rest arbitrary: t) auto

lemma complement_uncovered:
  "eps \<noteq> [] \<Longrightarrow> separated eps \<Longrightarrow> complement_ranges eps n = uncovered_from 0 eps n"
  using between_uncovered by (cases eps) (simp_all add: complement_ranges_def del: between_episodes.simps separated.simps)

lemma uncovered_bounds:
  "chain_ok lo eps n \<Longrightarrow> r \<in> set (uncovered_from lo eps n) \<Longrightarrow> lo \<le> fst r \<and> fst r < snd r \<and> snd r \<le> n"
proof (induction eps arbitrary: lo)
  case Nil then show ?case by (auto split: if_splits)
next
  case (Cons t rest)
  note h = chain_ok_head[OF Cons.prems(1)] and e = chain_ok_end[OF Cons.prems(1)]
  from Cons.prems(2) consider "lo < fst t" "r = (lo, fst t)" | "r \<in> set (uncovered_from (snd t) rest n)"
    by (auto split: if_splits)
  then show ?case
  proof cases
    case 1 with h e show ?thesis by simp
  next
    case 2
    from Cons.IH[OF chain_ok_tail[OF Cons.prems(1)] 2] h show ?thesis by simp
  qed
qed

lemma uncovered_increasing:
  "chain_ok lo eps n \<Longrightarrow> ranges_increasing (uncovered_from lo eps n)"
proof (induction eps arbitrary: lo)
  case Nil then show ?case by auto
next
  case (Cons t rest)
  note tl = chain_ok_tail[OF Cons.prems]
  have IH: "ranges_increasing (uncovered_from (snd t) rest n)"
    by (rule Cons.IH[OF tl])
  show ?case
  proof (cases "lo < fst t")
    case False with IH show ?thesis by simp
  next
    case True
    show ?thesis
    proof (cases "uncovered_from (snd t) rest n")
      case Nil with True show ?thesis by simp
    next
      case (Cons q qs)
      then have "q \<in> set (uncovered_from (snd t) rest n)" by simp
      from uncovered_bounds[OF tl this] chain_ok_head[OF Cons.prems] have "fst t \<le> fst q"
        by simp
      with True IH Cons show ?thesis by simp
    qed
  qed
qed

lemma uncovered_member:
  "chain_ok lo eps n \<Longrightarrow>
   (\<exists>r\<in>set (uncovered_from lo eps n). in_range h r) =
   (lo \<le> h \<and> h < n \<and> (\<forall>t\<in>set eps. \<not> in_range h t))"
proof (induction eps arbitrary: lo)
  case Nil then show ?case by (auto simp: in_range_def)
next
  case (Cons t rest)
  note IH = Cons.IH[OF chain_ok_tail[OF Cons.prems]]
  note h = chain_ok_head[OF Cons.prems] and e = chain_ok_end[OF Cons.prems]
  have "(\<exists>r\<in>set (uncovered_from lo (t # rest) n). in_range h r) =
        ((lo \<le> h \<and> h < fst t) \<or> (\<exists>r\<in>set (uncovered_from (snd t) rest n). in_range h r))"
    by (auto simp: in_range_def)
  also have "\<dots> = ((lo \<le> h \<and> h < fst t) \<or> (snd t \<le> h \<and> h < n \<and> (\<forall>t\<in>set rest. \<not> in_range h t)))"
    unfolding IH ..
  also have "\<dots> = (lo \<le> h \<and> h < n \<and> (\<forall>u\<in>set (t # rest). \<not> in_range h u))"
  proof -
    have later: "\<forall>u\<in>set rest. snd t \<le> fst u"
      using chain_ok_lower[OF chain_ok_tail[OF Cons.prems]] by blast
    show ?thesis
      using h e later by (fastforce simp: in_range_def)
  qed
  finally show ?case .
qed

lemma mult_le_iff_le_div:
  fixes h :: int
  assumes "0 < h"
  shows "(b * h \<le> x) = (b \<le> x div h)"
proof
  assume "b * h \<le> x"
  from zdiv_mono1[OF this assms] assms show "b \<le> x div h" by simp
next
  assume le: "b \<le> x div h"
  have "b * h \<le> (x div h) * h" using le assms by (simp add: mult_right_mono)
  also have "\<dots> \<le> x"
    using div_mult_mod_eq[of x h] pos_mod_sign[OF assms, of x] by linarith
  finally show "b * h \<le> x" .
qed

lemma less_mult_iff_div_less:
  fixes h :: int
  assumes "0 < h"
  shows "(x < e * h) = (x div h < e)"
proof -
  have "(x < e * h) = (\<not> e * h \<le> x)" by (simp add: not_le)
  also have "\<dots> = (\<not> e \<le> x div h)" by (simp only: mult_le_iff_le_div[OF assms])
  also have "\<dots> = (x div h < e)" by (simp add: not_le)
  finally show ?thesis .
qed

lemma in_range_apply_slice:
  assumes "0 < hop_size self"
  shows "in_range x (apply_slice self b e) =
         (x < waveform_shape self \<and> in_range (x div hop_size self) (b, e))"
proof -
  have "in_range x (apply_slice self b e) =
        (b * hop_size self \<le> x \<and> x < waveform_shape self \<and> x < e * hop_size self)"
    by (simp add: in_range_def apply_slice_def)
  also have "\<dots> = (b \<le> x div hop_size self \<and> x < waveform_shape self \<and> x div hop_size self < e)"
    by (simp only: mult_le_iff_le_div[OF assms] less_mult_iff_div_less[OF assms])
  also have "\<dots> = (x < waveform_shape self \<and> in_range (x div hop_size self) (b, e))"
    by (simp add: in_range_def conj_ac)
  finally show ?thesis .
qed

lemma scaled_increasing:
  assumes hop: "0 < hop_size self"
    and ws: "(n - 1) * hop_size self < waveform_shape self"
  shows "ranges_increasing rs \<Longrightarrow> (\<forall>r\<in>set rs. snd r \<le> n) \<Longrightarrow>
         ranges_increasing (map (\<lambda>r. apply_slice self (fst r) (snd r)) rs)"
proof (induction rs rule: ranges_increasing.induct)
  case 1 show ?case by simp
next
  case (2 r)
  then have "fst r < snd r" "fst r \<le> n - 1" by auto
  then have "fst r * hop_size self < snd r * hop_size self"
            "fst r * hop_size self \<le> (n - 1) * hop_size self"
    using hop by (simp_all add: mult_right_mono)
  with ws show ?case by (simp add: apply_slice_def)
next
  case (3 r q rest)
  then have "fst r < snd r" "fst r \<le> n - 1" "snd r \<le> fst q" by auto
  then have "fst r * hop_size self < snd r * hop_size self"
            "fst r * hop_size self \<le> (n - 1) * hop_size self"
            "snd r * hop_size self \<le> fst q * hop_size self"
    using hop by (simp_all add: mult_right_mono)
  with ws 3 show ?case by (simp add: apply_slice_def)
qed

lemma episodes_ok_chain: "tags \<noteq> [] \<Longrightarrow> episodes_ok tags n \<Longrightarrow> chain_ok 0 tags n"
  by (cases tags) (simp_all add: episodes_ok_def chain_ok_def)

text \<open>
  Claim C1, as the code has it.  For a non-empty list of ordered, separated episodes within
  \<open>[0, total_frames]\<close> and a positive hop size, the ranges of \<^verbatim>\<open>_get_ranges\<close> are the
  complement ranges of the specification, each scaled by the hop size and clamped at the
  waveform length; a sample position lies in one of them exactly when it lies within the
  waveform and its hop index lies in \<open>[0, total_frames)\<close> outside every episode; and when the
  waveform reaches into the last hop, the ranges are non-empty, increasing and
  non-overlapping in emission order.
\<close>

theorem get_ranges_scaled_complement:
  assumes ne: "tags \<noteq> []"
    and ok: "episodes_ok tags (total_frames self)"
    and hop: "0 < hop_size self"
  shows "get_ranges self tags =
           map (\<lambda>r. apply_slice self (fst r) (snd r)) (complement_ranges tags (total_frames self)) \<and>
         (\<forall>x. (\<exists>r\<in>set (get_ranges self tags). in_range x r) =
              (0 \<le> x \<and> x < waveform_shape self \<and> x div hop_size self < total_frames self \<and>
               (\<forall>t\<in>set tags. \<not> in_range (x div hop_size self) t))) \<and>
         ((total_frames self - 1) * hop_size self < waveform_shape self \<longrightarrow>
            ranges_increasing (get_ranges self tags))"
proof (intro conjI allI impI)
  let ?n = "total_frames self"
  note chain = episodes_ok_chain[OF ne ok]
  have sep: "separated tags" using ok by (simp add: episodes_ok_def)
  show eq: "get_ranges self tags =
      map (\<lambda>r. apply_slice self (fst r) (snd r)) (complement_ranges tags ?n)"
    by (rule get_ranges_complement[OF ne])
  have unc: "complement_ranges tags ?n = uncovered_from 0 tags ?n"
    by (rule complement_uncovered[OF ne sep])
  show "(\<exists>r\<in>set (get_ranges self tags). in_range x r) =
        (0 \<le> x \<and> x < waveform_shape self \<and> x div hop_size self < ?n \<and>
         (\<forall>t\<in>set tags. \<not> in_range (x div hop_size self) t))" for x
  proof -
    have "(\<exists>r\<in>set (get_ranges self tags). in_range x r) =
          (x < waveform_shape self \<and>
           (\<exists>r\<in>set (uncovered_from 0 tags ?n). in_range (x div hop_size self) r))"
      unfolding eq unc set_map bex_simps(7) in_range_apply_slice[OF hop] by simp
    also have "\<dots> = (x < waveform_shape self \<and> 0 \<le> x div hop_size self \<and>
         x div hop_size self < ?n \<and> (\<forall>t\<in>set tags. \<not> in_range (x div hop_size self) t))"
      unfolding uncovered_member[OF chain] ..
    also have "(0 \<le> x div hop_size self) = (0 \<le> x)"
      using hop by (simp add: pos_imp_zdiv_nonneg_iff)
    finally show ?thesis by (simp only: conj_ac)
  qed
  assume ws: "(?n - 1) * hop_size self < waveform_shape self"
  have "\<forall>r\<in>set (uncovered_from 0 tags ?n). snd r \<le> ?n"
    using uncovered_bounds[OF chain] by blast
  from scaled_increasing[OF hop ws uncovered_increasing[OF chain] this]
  show "ranges_increasing (get_ranges self tags)"
    unfolding eq unc .
qed

text \<open>The specification's scenario satisfies the hypotheses of C1 and gives two ranges.\<close>

theorem get_ranges_scaled_complement_witness:
  "[(300, 500)] \<noteq> [] \<and> episodes_ok [(300, 500)] (total_frames scenario_preview) \<and>
   0 < hop_size scenario_preview \<and>
   get_ranges scenario_preview [(300, 500)] = [(0, 3000), (5000, 10000)] \<and>
   ranges_increasing (get_ranges scenario_preview [(300, 500)])"
proof -
  have ne: "[(300, 500)] \<noteq> ([] :: (int \<times> int) list)" by simp
  have ok: "episodes_ok [(300, 500)] (total_frames scenario_preview)"
    by (simp add: episodes_ok_def scenario_preview_def)
  have hop: "0 < hop_size scenario_preview" by (simp add: scenario_preview_def)
  have ws: "(total_frames scenario_preview - 1) * hop_size scenario_preview
      < waveform_shape scenario_preview" by (simp add: scenario_preview_def)
  from get_ranges_scaled_complement[OF ne ok hop] ws
  have "get_ranges scenario_preview [(300, 500)] =
       map (\<lambda>r. apply_slice scenario_preview (fst r) (snd r))
         (complement_ranges [(300, 500)] (total_frames scenario_preview))"
    and inc: "ranges_increasing (get_ranges scenario_preview [(300, 500)])" by blast+
  then have "get_ranges scenario_preview [(300, 500)] = [(0, 3000), (5000, 10000)]"
    by (simp add: complement_ranges_def apply_slice_def scenario_preview_def)
  with ne ok hop inc show ?thesis by blast
qed

text \<open>
  Claim C1 as stated fails: the ranges are in samples, not in hops, so in the scenario they
  differ from the complement of the episodes; and on the short buffer the clamp at the
  waveform length yields a second range that ends before it begins.
\<close>

theorem get_ranges_complement_counterexample:
  "episodes_ok [(300, 500)] (total_frames scenario_preview) \<and>
   get_ranges scenario_preview [(300, 500)] = [(0, 3000), (5000, 10000)] \<and>
   complement_ranges [(300, 500)] (total_frames scenario_preview) = [(0, 300), (500, 1000)] \<and>
   episodes_ok [(1, 2)] (total_frames short_preview) \<and>
   get_ranges short_preview [(1, 2)] = [(0, 2), (4, 3)] \<and>
   \<not> ranges_increasing (get_ranges short_preview [(1, 2)])"
  by (simp add: episodes_ok_def get_ranges_def complement_ranges_def apply_slice_def
      scenario_preview_def short_preview_def)

text \<open>
  The preview, unlike the segmenter of the specification, draws no range when there is no
  episode.
\<close>

lemma get_ranges_empty: "get_ranges self [] = []"
  by (simp add: get_ranges_def)

text \<open>
  Claim C2.  With no accepted episode the segmenter of the specification emits exactly one
  chunk: it spans the frames \<open>[0, total_frames)\<close> and holds the samples of every channel of
  the buffer.
\<close>

theorem segment_no_episodes:
  assumes "buffer_ok buffer"
  shows "segment buffer [] =
           [\<lparr>start_frame = 0, end_frame = buffer_frames buffer, samples = buffer\<rparr>] \<and>
         length (segment buffer []) = 1"
proof -
  have "map (\<lambda>ch. take (nat (buffer_frames buffer)) ch) buffer = buffer"
    using assms by (intro map_idI) (auto simp: buffer_ok_def list_all_iff)
  then show ?thesis
    by (simp add: segment_def complement_ranges_def extract_chunk_def)
qed

text \<open>Claim C2 at a buffer of two channels and three frames.\<close>

theorem segment_no_episodes_witness:
  "buffer_ok two_channels \<and>
   segment two_channels [] = [\<lparr>start_frame = 0, end_frame = 3, samples = [[1, 3, 5], [2, 4, 6]]\<rparr>]"
proof -
  have ok: "buffer_ok two_channels"
    by (simp add: buffer_ok_def two_channels_def buffer_frames_def)
  have n: "buffer_frames two_channels = 3"
    by (simp add: two_channels_def buffer_frames_def)
  from segment_no_episodes[OF ok] have "segment two_channels [] =
      [\<lparr>start_frame = 0, end_frame = buffer_frames two_channels, samples = two_channels\<rparr>]"
    by (rule conjunct1)
  then have "segment two_channels [] = [\<lparr>start_frame = 0, end_frame = 3, samples = [[1, 3, 5], [2, 4, 6]]\<rparr>]"
    unfolding n by (simp add: two_channels_def)
  with ok show ?thesis by (rule conjI)
qed

section \<open>Properties of the main window\<close>

lemma setProcessing_fields:
  "processing (setProcessing p s) = p"
  "workers (setProcessing p s) = workers s"
  "lwTaskList (setProcessing p s) = lwTaskList s"
  "dialogs (setProcessing p s) = dialogs s"
  "workFinished (setProcessing p s) = workFinished s"
  "workCount (setProcessing p s) = workCount s"
  "progress_value (setProcessing p s) = progress_value s"
  "progress_maximum (setProcessing p s) = progress_maximum s"
  "app_name (setProcessing p s) = app_name s"
  by (simp_all add: setProcessing_def setEnabled_def Let_def)

lemma dropEvent_fields:
  "processing (dropEvent urls s) = processing s"
  "workers (dropEvent urls s) = workers s"
  by (induction urls s rule: dropEvent.induct; simp add: Let_def)+

lemma dropEvent_grows: "lwTaskList s \<noteq> [] \<Longrightarrow> lwTaskList (dropEvent urls s) \<noteq> []"
  by (induction urls s rule: dropEvent.induct) (simp_all add: Let_def)

lemma reachable_invariant: "reachable s \<Longrightarrow> run_invariant s"
proof (induction rule: reachable.induct)
  case (init s) then show ?case by (simp add: initial_def run_invariant_def)
next
  case (browse s path) then show ?case by (simp add: on_browse_output_dir_def run_invariant_def)
next
  case (add s paths) then show ?case
    by (simp add: on_add_audio_files_def warningProcessNotFinished_def run_invariant_def)
next
  case (remove s) then show ?case by (simp add: on_remove_audio_file_def)
next
  case (clear s) then show ?case
    by (simp add: on_clear_audio_list_def warningProcessNotFinished_def run_invariant_def)
next
  case (about s) then show ?case by (simp add: on_about_def run_invariant_def)
next
  case (start s) then show ?case
    by (auto simp: on_start_def warningProcessNotFinished_def run_invariant_def Let_def setProcessing_fields)
next
  case (one_finished s) then show ?case by (simp add: oneFinished_def run_invariant_def Let_def)
next
  case (thread_finished s) then show ?case
    by (simp add: threadFinished_def run_invariant_def Let_def setProcessing_fields)
next
  case (close s ev) then show ?case
    by (simp add: closeEvent_def warningProcessNotFinished_def run_invariant_def)
next
  case (drop s urls) then show ?case
    using dropEvent_grows[of s urls] by (auto simp: run_invariant_def dropEvent_fields)
qed

text \<open>
  Claim C6.  In every reachable state of the window, a start request made while the
  processing flag is set changes nothing but the list of message boxes, to which the
  warning is added: no worker is created and no run state is modified.  At most one worker
  exists at any time, and one exists exactly while the flag is set.
\<close>

theorem on_start_rejected_while_processing:
  assumes "reachable s"
  shows "(processing s \<longrightarrow>
            on_start s = s\<lparr>dialogs := dialogs s @ [Warning (app_name s) ''Please wait for slicing to complete!'']\<rparr>) \<and>
         length (workers s) \<le> 1 \<and>
         (processing s = (workers s \<noteq> []))"
  using reachable_invariant[OF assms]
  by (auto simp: on_start_def warningProcessNotFinished_def run_invariant_def)

text \<open>
  Claim C7.  In every reachable state with an empty task list, a start request returns the
  window as it was: no worker, no message box, no change.
\<close>

theorem on_start_empty_noop:
  assumes "reachable s" and "length (lwTaskList s) = 0"
  shows "on_start s = s"
  using reachable_invariant[OF assms(1)] assms(2)
  by (auto simp: on_start_def run_invariant_def)

text \<open>
  Claim C8.  The remove handler returns the window unchanged, whatever the task list and
  the selection are.
\<close>

theorem on_remove_audio_file_noop:
  "on_remove_audio_file s = s \<and> lwTaskList (on_remove_audio_file s) = lwTaskList s"
  by (simp add: on_remove_audio_file_def)

lemma has_wav_iff: "has_wav urls = (\<exists>u\<in>set urls. wav_url u)"
  by (induction urls) (auto simp: wav_url_def Let_def)

lemma dropEvent_closed:
  "dropEvent urls s = s\<lparr>lwTaskList := lwTaskList s @ map (\<lambda>u. path_item (toLocalFile u)) (filter wav_url urls)\<rparr>"
  by (induction urls s rule: dropEvent.induct) (simp_all add: wav_url_def Let_def)

text \<open>
  Claim C9.  A drop appends, in URL order, one item for each URL that is a local file whose
  extension is \<^verbatim>\<open>.wav\<close> in any letter case, with the full path stored, and changes nothing
  else; a drag-enter event is accepted afterwards exactly if it was accepted before or
  there is such a URL.
\<close>

theorem drop_appends_wav_files:
  "dropEvent urls s =
     s\<lparr>lwTaskList := lwTaskList s @ map (\<lambda>u. path_item (toLocalFile u)) (filter wav_url urls)\<rparr> \<and>
   map item_path (lwTaskList (dropEvent urls s)) =
     map item_path (lwTaskList s) @ map toLocalFile (filter wav_url urls) \<and>
   accepted (dragEnterEvent urls ev) = (accepted ev \<or> (\<exists>u\<in>set urls. wav_url u))"
  by (simp add: dropEvent_closed has_wav_iff dragEnterEvent_def path_item_def comp_def)

section \<open>Properties of the worker thread\<close>

lemma write_chunks_log:
  "write_chunks env od f m r i cs st = (None, st') \<Longrightarrow>
   log st' = log st @
     map (\<lambda>k. Write (chunk_path od f (i + k)) (if \<not> m then T (cs ! k) else cs ! k) r) [0..<length cs]"
proof (induction cs arbitrary: i st)
  case Nil then show ?case by simp
next
  case (Cons c cs)
  from Cons.prems obtain w where w: "sf_write env (chunk_path od f i) (if \<not> m then T c else c) r (world st) = Inr w"
    and rest: "write_chunks env od f m r (Suc i) cs
        (st\<lparr>world := w, log := log st @ [Write (chunk_path od f i) (if \<not> m then T c else c) r]\<rparr>) = (None, st')"
    by (auto simp: Let_def split: sum.splits)
  have up: "[0..<length (c # cs)] = 0 # map Suc [0..<length cs]"
    by (simp add: upt_conv_Cons map_Suc_upt del: upt_Suc)
  show ?case
    unfolding Cons.IH[OF rest] up by (simp add: comp_def)
qed

lemma write_chunks_signals:
  "filter is_signal (log (snd (write_chunks env od f m r i cs st))) = filter is_signal (log st)"
  by (induction cs arbitrary: i st) (auto simp: Let_def split: sum.splits)

lemma choose_out_dir_signals:
  "filter is_signal (log (snd (choose_out_dir env win f st))) = filter is_signal (log st)"
  by (simp add: choose_out_dir_def Let_def)

lemma process_file_signals:
  "filter is_signal (log (snd (process_file env win f st))) =
   filter is_signal (log st) @ (if fst (process_file env win f st) = None then [OneFinished] else [])"
proof (cases "read_and_slice env win f (world st)")
  case (Inl e) then show ?thesis by (simp add: process_file_def)
next
  case (Inr res)
  obtain m r cs where res: "res = (m, r, cs)" by (cases res) auto
  obtain od st1 where od: "choose_out_dir env win f st = (od, st1)" by (cases "choose_out_dir env win f st") auto
  obtain x st2 where wc: "write_chunks env od f m r 0 cs st1 = (x, st2)"
    by (cases "write_chunks env od f m r 0 cs st1") auto
  have 1: "filter is_signal (log st1) = filter is_signal (log st)"
    using choose_out_dir_signals[of env win f st] od by simp
  have 2: "filter is_signal (log st2) = filter is_signal (log st1)"
    using write_chunks_signals[of env od f m r 0 cs st1] wc by simp
  show ?thesis
    using 1 2 by (cases x) (simp_all add: process_file_def Inr res od wc)
qed

lemma run_signals:
  "filter is_signal (log (snd (run env win fs st))) =
   filter is_signal (log st) @ replicate (completed env win fs st) OneFinished"
proof (induction fs arbitrary: st)
  case Nil show ?case by simp
next
  case (Cons f fs)
  obtain x st1 where pf: "process_file env win f st = (x, st1)"
    by (cases "process_file env win f st") auto
  from process_file_signals[of env win f st] pf
  have s: "filter is_signal (log st1) =
      filter is_signal (log st) @ (if x = None then [OneFinished] else [])" by simp
  show ?case
  proof (cases x)
    case None
    with pf s Cons.IH[of st1] show ?thesis by (simp add: replicate_append_same)
  next
    case (Some e)
    with pf s show ?thesis by simp
  qed
qed

lemma run_completed_all:
  "fst (run env win fs st) = None \<Longrightarrow> completed env win fs st = length fs"
  by (induction fs arbitrary: st) (auto split: prod.splits option.splits)

lemma run_append:
  "run env win (pre @ post) st =
     (case run env win pre st of (Some e, st') \<Rightarrow> (Some e, st') | (None, st') \<Rightarrow> run env win post st')"
  by (induction pre arbitrary: st) (auto split: prod.splits option.splits)

lemma process_file_decode_failure:
  "sf_read env (world st) f = Inl e \<Longrightarrow> process_file env win f st = (Some e, st)"
  by (simp add: process_file_def read_and_slice_def)

text \<open>
  Claim C3, as the code has it.  When the files before \<open>f\<close> have been processed and \<open>f\<close>
  fails to decode, \<^verbatim>\<open>run\<close> ends with that error in the state the earlier files left: one
  signal for each of them, nothing for \<open>f\<close>, and the files after \<open>f\<close> are never read.
\<close>

theorem run_stops_at_decode_failure:
  assumes "run env win pre st = (None, st1)"
    and "sf_read env (world st1) f = Inl e"
  shows "run env win (pre @ f # post) st = (Some e, st1) \<and>
         thread_exec env win (pre @ f # post) st = (Some e, st1) \<and>
         filter is_signal (log st1) = filter is_signal (log st) @ replicate (length pre) OneFinished"
proof -
  have r: "run env win (pre @ f # post) st = (Some e, st1)"
    by (simp add: run_append assms process_file_decode_failure)
  have c: "completed env win pre st = length pre"
    by (rule run_completed_all) (simp add: assms)
  from run_signals[of env win pre st] show ?thesis
    by (simp add: r thread_exec_def assms c)
qed

lemma map_index: "map (\<lambda>i. f (xs ! i)) [0..<length xs] = map f xs"
  by (rule nth_equalityI) simp_all

lemma on_start_begins:
  assumes "\<not> processing s" and "lwTaskList s \<noteq> []"
  shows "workers (on_start s) = workers s @ [map item_path (lwTaskList s)]"
    and "processing (on_start s)"
    and "workFinished (on_start s) = 0"
    and "workCount (on_start s) = int (length (lwTaskList s))"
    and "progress_maximum (on_start s) = int (length (lwTaskList s))"
    and "progress_value (on_start s) = 0"
    and "dialogs (on_start s) = dialogs s"
    and "app_name (on_start s) = app_name s"
    and "lwTaskList (on_start s) = lwTaskList s"
  using assms by (simp_all add: on_start_def Let_def setProcessing_fields map_index)

lemma fold_oneFinished:
  "workFinished (fold slot (replicate n OneFinished) s) = workFinished s + int n"
  "progress_value (fold slot (replicate n OneFinished) s) =
     (if n = 0 then progress_value s else workFinished s + int n)"
  "dialogs (fold slot (replicate n OneFinished) s) = dialogs s"
  "app_name (fold slot (replicate n OneFinished) s) = app_name s"
  "workers (fold slot (replicate n OneFinished) s) = workers s"
  "processing (fold slot (replicate n OneFinished) s) = processing s"
  "progress_maximum (fold slot (replicate n OneFinished) s) = progress_maximum s"
  by (induction n arbitrary: s; simp add: oneFinished_def Let_def)+

lemma threadFinished_fields:
  "workFinished (threadFinished s) = workFinished s"
  "progress_value (threadFinished s) = progress_value s"
  "progress_maximum (threadFinished s) = progress_maximum s"
  "dialogs (threadFinished s) = dialogs s @ [Information (app_name s) ''Slicing complete!'']"
  "workers (threadFinished s) = []"
  "processing (threadFinished s) = False"
  by (simp_all add: threadFinished_def Let_def setProcessing_fields)

lemma thread_exec_signals:
  assumes "fst (run env win fs st) = None"
  shows "filter is_signal (log (snd (thread_exec env win fs st))) =
         filter is_signal (log st) @ replicate (length fs) OneFinished @ [Finished]"
proof -
  obtain st1 where r: "run env win fs st = (None, st1)"
    using assms by (cases "run env win fs st") auto
  from run_signals[of env win fs st] run_completed_all[OF assms] r
  show ?thesis by (simp add: thread_exec_def)
qed

text \<open>
  A start request on an idle window with files creates one worker with the paths of the
  task list; when \<^verbatim>\<open>run\<close> processes all of them, the signals of the thread count the
  progress up to the number of files and show the completion message once.
\<close>

lemma started_batch_completes:
  assumes idle: "\<not> processing s" and files: "lwTaskList s \<noteq> []"
    and ok: "fst (run env (on_start s) (map item_path (lwTaskList s)) st) = None"
    and fresh: "log st = []"
  shows "workers (on_start s) = workers s @ [map item_path (lwTaskList s)] \<and>
         filter is_signal (log (snd (thread_exec env (on_start s) (map item_path (lwTaskList s)) st))) =
           replicate (length (lwTaskList s)) OneFinished @ [Finished] \<and>
         (let s' = deliver (log (snd (thread_exec env (on_start s) (map item_path (lwTaskList s)) st)))
                     (on_start s)
          in workFinished s' = int (length (lwTaskList s)) \<and>
             progress_value s' = int (length (lwTaskList s)) \<and>
             progress_maximum s' = int (length (lwTaskList s)) \<and>
             dialogs s' = dialogs s @ [Information (app_name s) ''Slicing complete!''] \<and>
             workers s' = [] \<and> \<not> processing s')"
proof -
  let ?fs = "map item_path (lwTaskList s)"
  note st = on_start_begins[OF idle files]
  have sig: "filter is_signal (log (snd (thread_exec env (on_start s) ?fs st))) =
      replicate (length (lwTaskList s)) OneFinished @ [Finished]"
    using thread_exec_signals[OF ok] fresh by simp
  have n: "length (lwTaskList s) \<noteq> 0" using files by simp
  show ?thesis
    unfolding deliver_def sig Let_def
    using n by (simp add: st threadFinished_fields fold_oneFinished del: fold_replicate)
qed

lemma show_nat_nonempty: "show_nat n \<noteq> []"
  by (subst show_nat.simps) simp

lemma digit_inj: "a < 10 \<Longrightarrow> b < 10 \<Longrightarrow> (char_of (48 + a) :: char) = char_of (48 + b) \<Longrightarrow> a = (b::nat)"
proof -
  assume a: "a < 10" and b: "b < 10" and e: "(char_of (48 + a) :: char) = char_of (48 + b)"
  from e have "of_char (char_of (48 + a) :: char) = (of_char (char_of (48 + b) :: char) :: nat)" by simp
  then have "(48 + a) mod 256 = (48 + b) mod 256" by (simp only: of_char_of)
  with a b show ?thesis by simp
qed

lemma show_nat_inj: "show_nat m = show_nat n \<Longrightarrow> m = n"
proof (induction m arbitrary: n rule: show_nat.induct)
  case (1 m)
  show ?case
  proof (cases "m < 10")
    case True
    show ?thesis
    proof (cases "n < 10")
      case n: True
      from "1.prems" True n have "(char_of (48 + m) :: char) = char_of (48 + n)"
        by (subst (asm) show_nat.simps, subst (asm) (2) show_nat.simps) simp
      from digit_inj[OF True n this] show ?thesis .
    next
      case False
      from "1.prems" True False have "[char_of (48 + m)] = show_nat (n div 10) @ [char_of (48 + n mod 10)]"
        by (subst (asm) show_nat.simps, subst (asm) (2) show_nat.simps) simp
      then have "show_nat (n div 10) = []" by simp
      with show_nat_nonempty show ?thesis by blast
    qed
  next
    case False
    show ?thesis
    proof (cases "n < 10")
      case True
      from "1.prems" True False have "show_nat (m div 10) @ [char_of (48 + m mod 10)] = [char_of (48 + n)]"
        by (subst (asm) show_nat.simps, subst (asm) (2) show_nat.simps) simp
      then have "show_nat (m div 10) = []" by simp
      with show_nat_nonempty show ?thesis by blast
    next
      case n: False
      from "1.prems" False n
      have "show_nat (m div 10) @ [char_of (48 + m mod 10)] = show_nat (n div 10) @ [char_of (48 + n mod 10)]"
        by (subst (asm) show_nat.simps, subst (asm) (2) show_nat.simps) simp
      then have d: "show_nat (m div 10) = show_nat (n div 10)"
        and c: "(char_of (48 + m mod 10) :: char) = char_of (48 + n mod 10)" by simp_all
      from "1.IH"[OF False d] have "m div 10 = n div 10" .
      moreover from digit_inj[OF _ _ c] have "m mod 10 = n mod 10" by simp
      ultimately show ?thesis by (metis div_mult_mod_eq)
    qed
  qed
qed

lemma path_join_inj:
  assumes "b = [] \<or> hd b \<noteq> CHR ''/''" "b' = [] \<or> hd b' \<noteq> CHR ''/''"
    and "path_join a b = path_join a b'"
  shows "b = b'"
  using assms by (auto simp: path_join_def split: if_splits)

lemma basename_no_sep: "CHR ''/'' \<notin> set (basename p)"
  unfolding basename_def set_rev using set_takeWhileD by fastforce

lemma rsplit_dot_first_subset: "set (rsplit_dot_first s) \<subseteq> set s"
proof -
  have "set (tl (dropWhile (\<lambda>x. x \<noteq> CHR ''.'') (rev s))) \<subseteq> set s"
    by (metis (no_types, lifting) list.set_sel(2) set_dropWhileD set_rev subsetI tl_Nil)
  then show ?thesis
    by (auto simp: rsplit_dot_first_def rsplit_at_def)
qed

lemma chunk_path_inj: "chunk_path od f i = chunk_path od f j \<Longrightarrow> i = j"
proof -
  let ?stem = "rsplit_dot_first (basename f)"
  let ?n = "\<lambda>k. ?stem @ ''_'' @ show_nat k @ ''.wav''"
  assume e: "chunk_path od f i = chunk_path od f j"
  have ns: "CHR ''/'' \<notin> set ?stem"
    using rsplit_dot_first_subset[of "basename f"] basename_no_sep[of f] by blast
  have hd: "?n k = [] \<or> hd (?n k) \<noteq> CHR ''/''" for k
    using ns by (cases ?stem) auto
  from path_join_inj[OF hd hd] e have "?n i = ?n j" by (simp add: chunk_path_def)
  then have "show_nat i = show_nat j" by simp
  then show ?thesis by (rule show_nat_inj)
qed

lemma read_and_slice_result:
  assumes "sf_read env w f = Inr (audio, rate)"
    and "read_and_slice env win f w = Inr (is_mono, r, chunks)"
  shows "is_mono = (ndim audio \<le> 1) \<and> r = rate"
  using assms by (auto simp: read_and_slice_def Let_def split: sum.splits prod.splits)

lemma layout_restored:
  "same_layout (if ndim audio > 1 then T audio else audio) c \<Longrightarrow>
   channels (if ndim audio > 1 then T c else c) = channels audio"
  by (cases audio; cases c) simp_all

lemma process_file_log:
  assumes rs: "read_and_slice env win f (world st) = Inr (is_mono, r, chunks)"
    and ok: "process_file env win f st = (None, st')"
  shows "log st' = log st @
       (if leOutputDir win \<noteq> [] \<and> \<not> qdir_exists env (world st) (leOutputDir win)
        then [MkPath (leOutputDir win)] else []) @
       map (\<lambda>i. Write (chunk_path (if leOutputDir win = [] then dirname (abspath env f)
                                    else leOutputDir win) f i)
                  (if \<not> is_mono then T (chunks ! i) else chunks ! i) r)
         [0..<length chunks] @
       [OneFinished]"
proof -
  let ?od = "if leOutputDir win = [] then dirname (abspath env f) else leOutputDir win"
  define st1 where "st1 = snd (choose_out_dir env win f st)"
  have "fst (choose_out_dir env win f st) = ?od"
    by (simp add: choose_out_dir_def Let_def)
  then have od: "choose_out_dir env win f st = (?od, st1)"
    by (simp add: st1_def prod_eq_iff)
  have l1: "log st1 = log st @
       (if leOutputDir win \<noteq> [] \<and> \<not> qdir_exists env (world st) (leOutputDir win)
        then [MkPath (leOutputDir win)] else [])"
    by (simp add: st1_def choose_out_dir_def Let_def)
  obtain x st2 where wc: "write_chunks env ?od f is_mono r 0 chunks st1 = (x, st2)"
    by (cases "write_chunks env ?od f is_mono r 0 chunks st1") auto
  from ok have x: "x = None" and st': "st' = st2\<lparr>log := log st2 @ [OneFinished]\<rparr>"
    unfolding process_file_def rs by (simp_all add: od wc split: option.splits)
  from write_chunks_log[OF wc[unfolded x]] l1 st' show ?thesis by simp
qed

lemma outs_from_Nil: "outs_from od f m r i [] = []"
  by (simp add: outs_from_def)

lemma outs_from_Cons:
  "outs_from od f m r i (c # cs) =
     (chunk_path od f i, (if \<not> m then T c else c), r) # outs_from od f m r (Suc i) cs"
proof -
  have up: "[0..<length (c # cs)] = 0 # map Suc [0..<length cs]"
    by (simp add: upt_conv_Cons map_Suc_upt del: upt_Suc)
  show ?thesis unfolding outs_from_def up by (simp add: comp_def)
qed

lemma write_all_write_chunks:
  "write_all env (outs_from od f m r i cs) (world st) = Inr w \<Longrightarrow>
   write_chunks env od f m r i cs st =
     (None, st\<lparr>world := w, log := log st @ map (\<lambda>(p, d, r). Write p d r) (outs_from od f m r i cs)\<rparr>)"
proof (induction cs arbitrary: i st)
  case Nil then show ?case by (simp add: outs_from_Nil)
next
  case (Cons c cs)
  from Cons.prems obtain w1 where
    w1: "sf_write env (chunk_path od f i) (if \<not> m then T c else c) r (world st) = Inr w1"
    and rest: "write_all env (outs_from od f m r (Suc i) cs) w1 = Inr w"
    unfolding outs_from_Cons by (auto split: sum.splits)
  let ?st1 = "st\<lparr>world := w1, log := log st @ [Write (chunk_path od f i) (if \<not> m then T c else c) r]\<rparr>"
  have "write_all env (outs_from od f m r (Suc i) cs) (world ?st1) = Inr w" using rest by simp
  from Cons.IH[OF this] w1 show ?case
    unfolding outs_from_Cons by (simp add: Let_def)
qed

lemma write_chunks_write_all:
  "write_chunks env od f m r i cs st = (None, st') \<Longrightarrow>
   write_all env (outs_from od f m r i cs) (world st) = Inr (world st') \<and>
   log st' = log st @ map (\<lambda>(p, d, r). Write p d r) (outs_from od f m r i cs)"
proof (induction cs arbitrary: i st)
  case Nil then show ?case by (simp add: outs_from_Nil)
next
  case (Cons c cs)
  from Cons.prems obtain w1 where
    w1: "sf_write env (chunk_path od f i) (if \<not> m then T c else c) r (world st) = Inr w1"
    and rest: "write_chunks env od f m r (Suc i) cs
        (st\<lparr>world := w1, log := log st @ [Write (chunk_path od f i) (if \<not> m then T c else c) r]\<rparr>) = (None, st')"
    by (auto simp: Let_def split: sum.splits)
  from Cons.IH[OF rest] w1 show ?case
    unfolding outs_from_Cons by simp
qed

lemma outs_from_chunk_outputs:
  "outs_from od f (\<not> multi) r 0 cs = chunk_outputs od f multi r cs"
  by (simp add: outs_from_def chunk_outputs_def chunk_path_def)

lemma read_and_slice_ok:
  assumes "sf_read env w fname = Inr (audio, rate)"
    and "py_float env (leThreshold win) = Inr th"
    and "py_int env (leMinLen win) = Inr ml"
    and "py_int env (leMinInterval win) = Inr mi"
    and "py_int env (leHopSize win) = Inr hs"
    and "py_int env (leMaxSilence win) = Inr ms"
    and "get_slice_tags env \<lparr>sr = rate, threshold = th, min_length = ml, min_interval = mi,
          slicer_hop_size = hs, max_sil_kept = ms\<rparr> (if ndim audio > 1 then T audio else audio) = Inr (tags, n)"
    and "slice env \<lparr>sr = rate, threshold = th, min_length = ml, min_interval = mi,
          slicer_hop_size = hs, max_sil_kept = ms\<rparr> (if ndim audio > 1 then T audio else audio) tags n = Inr chunks"
  shows "read_and_slice env win fname w = Inr (\<not> (ndim audio > 1), rate, chunks)"
  using assms by (simp add: read_and_slice_def Let_def)

lemma read_and_slice_calls:
  assumes "read_and_slice env win fname w = Inr (m, r, chunks)"
  obtains audio th ml mi hs ms tags n where
    "sf_read env w fname = Inr (audio, r)"
    "m = (\<not> (ndim audio > 1))"
    "py_float env (leThreshold win) = Inr th"
    "py_int env (leMinLen win) = Inr ml"
    "py_int env (leMinInterval win) = Inr mi"
    "py_int env (leHopSize win) = Inr hs"
    "py_int env (leMaxSilence win) = Inr ms"
    "get_slice_tags env \<lparr>sr = r, threshold = th, min_length = ml, min_interval = mi,
          slicer_hop_size = hs, max_sil_kept = ms\<rparr> (if ndim audio > 1 then T audio else audio) = Inr (tags, n)"
    "slice env \<lparr>sr = r, threshold = th, min_length = ml, min_interval = mi,
          slicer_hop_size = hs, max_sil_kept = ms\<rparr> (if ndim audio > 1 then T audio else audio) tags n = Inr chunks"
  using assms
  by (auto simp: read_and_slice_def Let_def split: sum.splits prod.splits)

lemma choose_out_dir_eq:
  "choose_out_dir env win f st =
     ((if leOutputDir win = [] then dirname (abspath env f) else leOutputDir win),
      (if leOutputDir win \<noteq> [] \<and> \<not> qdir_exists env (world st) (leOutputDir win)
       then st\<lparr>world := qdir_mkpath env (leOutputDir win) (world st),
               log := log st @ [MkPath (leOutputDir win)]\<rparr>
       else st))"
  by (simp add: choose_out_dir_def Let_def)

lemma file_done_process_file:
  assumes "file_done env win f st st'"
  shows "process_file env win f st = (None, st')"
  using assms
proof (cases rule: file_done.cases)
  case (1 audio rate th ml mi hs ms k a tags n chunks out_dir missing w1 outs w2)
  have rs: "read_and_slice env win f (world st) = Inr (\<not> (ndim audio > 1), rate, chunks)"
    using 1 by (intro read_and_slice_ok) simp_all
  let ?st1 = "if missing then st\<lparr>world := w1, log := log st @ [MkPath (leOutputDir win)]\<rparr> else st"
  have cd: "choose_out_dir env win f st = (out_dir, ?st1)"
    unfolding choose_out_dir_eq using 1 by simp
  have w: "world ?st1 = w1" using 1 by simp
  have "write_all env (outs_from out_dir f (\<not> (ndim audio > 1)) rate 0 chunks) (world ?st1) = Inr w2"
    unfolding outs_from_chunk_outputs w using 1 by simp
  from write_all_write_chunks[OF this]
  have wc: "write_chunks env out_dir f (\<not> (ndim audio > 1)) rate 0 chunks ?st1 =
     (None, ?st1\<lparr>world := w2, log := log ?st1 @ map (\<lambda>(p, d, r). Write p d r) outs\<rparr>)"
    unfolding outs_from_chunk_outputs using 1 by simp
  have "process_file env win f st =
      (None, (?st1\<lparr>world := w2, log := log ?st1 @ map (\<lambda>(p, d, r). Write p d r) outs\<rparr>)
               \<lparr>log := log (?st1\<lparr>world := w2, log := log ?st1 @ map (\<lambda>(p, d, r). Write p d r) outs\<rparr>)
                        @ [OneFinished]\<rparr>)"
    by (simp only: process_file_def rs sum.case prod.case cd Let_def wc option.case)
  also have "\<dots> = (None, st')"
    using 1(1) by (cases missing) simp_all
  finally show ?thesis .
qed

lemma process_file_file_done:
  assumes "process_file env win f st = (None, st')"
  shows "file_done env win f st st'"
proof -
  from assms obtain m r chunks where rs: "read_and_slice env win f (world st) = Inr (m, r, chunks)"
    by (auto simp: process_file_def split: sum.splits)
  from read_and_slice_calls[OF rs] obtain audio th ml mi hs ms tags n where c:
    "sf_read env (world st) f = Inr (audio, r)"
    "m = (\<not> (ndim audio > 1))"
    "py_float env (leThreshold win) = Inr th"
    "py_int env (leMinLen win) = Inr ml"
    "py_int env (leMinInterval win) = Inr mi"
    "py_int env (leHopSize win) = Inr hs"
    "py_int env (leMaxSilence win) = Inr ms"
    "get_slice_tags env \<lparr>sr = r, threshold = th, min_length = ml, min_interval = mi,
          slicer_hop_size = hs, max_sil_kept = ms\<rparr> (if ndim audio > 1 then T audio else audio) = Inr (tags, n)"
    "slice env \<lparr>sr = r, threshold = th, min_length = ml, min_interval = mi,
          slicer_hop_size = hs, max_sil_kept = ms\<rparr> (if ndim audio > 1 then T audio else audio) tags n = Inr chunks"
    by metis
  define od where "od = (if leOutputDir win = [] then dirname (abspath env f) else leOutputDir win)"
  define missing where "missing = (leOutputDir win \<noteq> [] \<and> \<not> qdir_exists env (world st) (leOutputDir win))"
  define w1 where "w1 = (if missing then qdir_mkpath env (leOutputDir win) (world st) else world st)"
  define st1 where "st1 = (if missing then st\<lparr>world := w1, log := log st @ [MkPath (leOutputDir win)]\<rparr> else st)"
  have cd: "choose_out_dir env win f st = (od, st1)"
    unfolding choose_out_dir_eq od_def st1_def w1_def missing_def by simp
  obtain x st2 where wc: "write_chunks env od f m r 0 chunks st1 = (x, st2)"
    by (cases "write_chunks env od f m r 0 chunks st1") auto
  from assms have x: "x = None" and st': "st' = st2\<lparr>log := log st2 @ [OneFinished]\<rparr>"
    unfolding process_file_def rs by (simp_all add: cd wc split: option.splits)
  from write_chunks_write_all[OF wc[unfolded x]]
  have wa: "write_all env (chunk_outputs od f (ndim audio > 1) r chunks) w1 = Inr (world st2)"
    and l2: "log st2 = log st1 @ map (\<lambda>(p, d, r). Write p d r) (chunk_outputs od f (ndim audio > 1) r chunks)"
    unfolding c(2) outs_from_chunk_outputs by (cases missing; simp add: st1_def w1_def)+
  have "st' = \<lparr>world = world st2,
          log = log st @ (if missing then [MkPath (leOutputDir win)] else []) @
                map (\<lambda>(p, d, r). Write p d r) (chunk_outputs od f (ndim audio > 1) r chunks) @ [OneFinished]\<rparr>"
    unfolding st' using l2 by (cases missing) (simp_all add: st1_def)
  moreover have "file_done env win f st \<lparr>world = world st2,
          log = log st @ (if missing then [MkPath (leOutputDir win)] else []) @
                map (\<lambda>(p, d, r). Write p d r) (chunk_outputs od f (ndim audio > 1) r chunks) @ [OneFinished]\<rparr>"
    by (rule file_done.intros[OF c(1) c(3-7) refl refl c(8) c(9) od_def missing_def w1_def refl wa])
  ultimately show ?thesis by simp
qed

lemma completed_le: "completed env win fs st \<le> length fs"
  by (induction fs arbitrary: st) (auto split: prod.splits option.splits)

lemma completed_all_iff:
  "(completed env win fs st = length fs) = (fst (run env win fs st) = None)"
proof (induction fs arbitrary: st)
  case Nil show ?case by simp
next
  case (Cons f fs)
  obtain x st1 where pf: "process_file env win f st = (x, st1)"
    by (cases "process_file env win f st") auto
  show ?case
  proof (cases x)
    case None with pf Cons.IH[of st1] show ?thesis by simp
  next
    case (Some e) with pf show ?thesis by simp
  qed
qed

lemma state_after_0: "state_after env win fs st 0 = st"
  by (simp add: state_after_def)

lemma state_after_Cons:
  "process_file env win f st = (None, st1) \<Longrightarrow>
   state_after env win (f # fs) st (Suc j) = state_after env win fs st1 j"
  by (simp add: state_after_def)

lemma completed_step:
  "j < completed env win fs st \<Longrightarrow>
   process_file env win (fs ! j) (state_after env win fs st j) =
     (None, state_after env win fs st (Suc j))"
proof (induction fs arbitrary: st j)
  case Nil then show ?case by simp
next
  case (Cons f fs)
  obtain x st1 where pf: "process_file env win f st = (x, st1)"
    by (cases "process_file env win f st") auto
  from Cons.prems pf have x: "x = None" by (cases x) simp_all
  note pf = pf[unfolded x]
  show ?case
  proof (cases j)
    case 0
    then show ?thesis by (simp add: state_after_def pf)
  next
    case (Suc i)
    with Cons.prems pf have "i < completed env win fs st1" by simp
    from Cons.IH[OF this] show ?thesis
      unfolding Suc state_after_Cons[OF pf] by simp
  qed
qed

lemma completed_stop:
  "completed env win fs st < length fs \<Longrightarrow>
   fst (process_file env win (fs ! completed env win fs st)
          (state_after env win fs st (completed env win fs st))) \<noteq> None \<and>
   run env win fs st =
     process_file env win (fs ! completed env win fs st)
       (state_after env win fs st (completed env win fs st))"
proof (induction fs arbitrary: st)
  case Nil then show ?case by simp
next
  case (Cons f fs)
  obtain x st1 where pf: "process_file env win f st = (x, st1)"
    by (cases "process_file env win f st") auto
  show ?case
  proof (cases x)
    case (Some e)
    with pf show ?thesis by (simp add: state_after_def)
  next
    case None
    note pf = pf[unfolded None]
    from Cons.prems pf have "completed env win fs st1 < length fs" by simp
    from Cons.IH[OF this] show ?thesis
      using pf by (simp add: state_after_Cons[OF pf])
  qed
qed

lemma qthread_log:
  "log (snd (qthread b env win fs st)) =
   log (snd (run env win fs st)) @ (if fst (run env win fs st) = None \<or> b then [Finished] else [])"
  by (cases "run env win fs st") (auto simp: qthread_def split: option.splits)

lemma qthread_False: "qthread False env win fs st = thread_exec env win fs st"
  by (cases "run env win fs st") (auto simp: qthread_def thread_exec_def split: option.splits)

lemma deliver_signals:
  assumes "filter is_signal cs = replicate k OneFinished @ (if fin then [Finished] else [])"
  shows "workFinished (deliver cs s) = workFinished s + int k"
    and "dialogs (deliver cs s) =
           dialogs s @ (if fin then [Information (app_name s) ''Slicing complete!''] else [])"
  unfolding deliver_def assms
  by (simp_all add: threadFinished_fields fold_oneFinished del: fold_replicate)

text \<open>
  Claim C4.  For every run, whether it ends normally or by an exception, and whatever the
  binding does after an exception: the files processed to the end are a prefix of the list,
  and all of it exactly when \<^verbatim>\<open>run\<close> returns; each of them is completed, that is, the thread
  has written all its chunks and then emitted one \<^verbatim>\<open>oneFinished\<close>, before the next file is
  begun; the file at which an exception occurs is not completed and nothing is emitted for
  it; \<^verbatim>\<open>finished\<close> follows once, at the end, when \<^verbatim>\<open>run\<close> has returned (or the binding emits
  it after an exception); and the window counts one file for each \<^verbatim>\<open>oneFinished\<close> and shows
  the completion message once for \<^verbatim>\<open>finished\<close>.
\<close>

theorem batch_notifications:
  "(let k = completed env win fs st;
        ended = (fst (run env win fs st) = None)
    in k \<le> length fs \<and> (k = length fs) = ended \<and>
       state_after env win fs st 0 = st \<and>
       (\<forall>j<k. file_done env win (fs ! j) (state_after env win fs st j)
                 (state_after env win fs st (Suc j))) \<and>
       (k < length fs \<longrightarrow> \<not> (\<exists>st'. file_done env win (fs ! k) (state_after env win fs st k) st')) \<and>
       filter is_signal (log (snd (run env win fs st))) =
         filter is_signal (log st) @ replicate k OneFinished \<and>
       log (snd (qthread b env win fs st)) =
         log (snd (run env win fs st)) @ (if ended \<or> b then [Finished] else []) \<and>
       (log st = [] \<longrightarrow>
          workFinished (deliver (log (snd (qthread b env win fs st))) s) = workFinished s + int k \<and>
          dialogs (deliver (log (snd (qthread b env win fs st))) s) =
            dialogs s @ (if ended \<or> b then [Information (app_name s) ''Slicing complete!''] else [])))"
proof -
  let ?k = "completed env win fs st"
  let ?ended = "fst (run env win fs st) = None"
  have each: "file_done env win (fs ! j) (state_after env win fs st j)
                 (state_after env win fs st (Suc j))" if "j < ?k" for j
    by (rule process_file_file_done[OF completed_step[OF that]])
  have stop: "\<not> (\<exists>st'. file_done env win (fs ! ?k) (state_after env win fs st ?k) st')"
    if "?k < length fs"
  proof
    assume "\<exists>st'. file_done env win (fs ! ?k) (state_after env win fs st ?k) st'"
    then obtain st' where "file_done env win (fs ! ?k) (state_after env win fs st ?k) st'" ..
    from file_done_process_file[OF this] completed_stop[OF that] show False by simp
  qed
  have sig: "filter is_signal (log (snd (qthread b env win fs st))) =
      replicate ?k OneFinished @ (if ?ended \<or> b then [Finished] else [])" if "log st = []"
    unfolding qthread_log using run_signals[of env win fs st] that by simp
  show ?thesis
    unfolding Let_def
    using completed_le[of env win fs st] completed_all_iff[of env win fs st]
      state_after_0[of env win fs st] each stop run_signals[of env win fs st]
      qthread_log[of b env win fs st]
      deliver_signals[OF sig, of s]
    by (intro conjI allI impI) simp_all
qed

text \<open>
  Claim C5.  When a file decodes, the fields parse, the slicer returns its chunks and every
  write succeeds, \<^verbatim>\<open>run\<close> completes the file: it has created the output directory if one is
  given and does not exist, and has written, one after the other in chunk order, chunk \<open>i\<close>
  to \<^verbatim>\<open>{stem}_{i}.wav\<close> in the output directory, or in the directory of the source file when
  none is given, with the sample rate of the source, leaving the world that these writes
  produce, and then emitted one signal.  The paths are pairwise distinct, and a chunk that
  the slicer returns in the layout it was given is written with the channel count of the
  source.
\<close>

theorem chunk_files_written:
  assumes rd: "sf_read env (world st) f = Inr (audio, rate)"
    and th: "py_float env (leThreshold win) = Inr th"
    and ml: "py_int env (leMinLen win) = Inr ml"
    and mi: "py_int env (leMinInterval win) = Inr mi"
    and hs: "py_int env (leHopSize win) = Inr hs"
    and ms: "py_int env (leMaxSilence win) = Inr ms"
    and tg: "get_slice_tags env
               \<lparr>sr = rate, threshold = th, min_length = ml, min_interval = mi,
                slicer_hop_size = hs, max_sil_kept = ms\<rparr>
               (if ndim audio > 1 then T audio else audio) = Inr (tags, n)"
    and sl: "slice env
               \<lparr>sr = rate, threshold = th, min_length = ml, min_interval = mi,
                slicer_hop_size = hs, max_sil_kept = ms\<rparr>
               (if ndim audio > 1 then T audio else audio) tags n = Inr chunks"
    and wr: "write_all env
               (map (\<lambda>i. (path_join (if leOutputDir win = [] then dirname (abspath env f)
                                     else leOutputDir win)
                            (rsplit_dot_first (basename f) @ ''_'' @ show_nat i @ ''.wav''),
                          (if ndim audio > 1 then T (chunks ! i) else chunks ! i), rate))
                  [0..<length chunks])
               (if leOutputDir win \<noteq> [] \<and> \<not> qdir_exists env (world st) (leOutputDir win)
                then qdir_mkpath env (leOutputDir win) (world st) else world st) = Inr w2"
  shows "process_file env win f st =
           (None,
            \<lparr>world = w2,
             log = log st @
               (if leOutputDir win \<noteq> [] \<and> \<not> qdir_exists env (world st) (leOutputDir win)
                then [MkPath (leOutputDir win)] else []) @
               map (\<lambda>i. Write (path_join (if leOutputDir win = [] then dirname (abspath env f)
                                           else leOutputDir win)
                                  (rsplit_dot_first (basename f) @ ''_'' @ show_nat i @ ''.wav''))
                          (if ndim audio > 1 then T (chunks ! i) else chunks ! i) rate)
                 [0..<length chunks] @
               [OneFinished]\<rparr>) \<and>
         distinct (map (\<lambda>i. path_join (if leOutputDir win = [] then dirname (abspath env f)
                                       else leOutputDir win)
                              (rsplit_dot_first (basename f) @ ''_'' @ show_nat i @ ''.wav''))
                     [0..<length chunks]) \<and>
         (\<forall>c\<in>set chunks. same_layout (if ndim audio > 1 then T audio else audio) c \<longrightarrow>
            channels (if ndim audio > 1 then T c else c) = channels audio)"
proof (intro conjI ballI impI)
  let ?od = "if leOutputDir win = [] then dirname (abspath env f) else leOutputDir win"
  let ?missing = "leOutputDir win \<noteq> [] \<and> \<not> qdir_exists env (world st) (leOutputDir win)"
  have wr': "write_all env (chunk_outputs ?od f (ndim audio > 1) rate chunks)
      (if ?missing then qdir_mkpath env (leOutputDir win) (world st) else world st) = Inr w2"
    using wr unfolding chunk_outputs_def .
  have "file_done env win f st
      \<lparr>world = w2,
       log = log st @ (if ?missing then [MkPath (leOutputDir win)] else []) @
             map (\<lambda>(p, d, r). Write p d r) (chunk_outputs ?od f (ndim audio > 1) rate chunks) @
             [OneFinished]\<rparr>"
    by (rule file_done.intros[OF rd th ml mi hs ms refl refl tg sl refl refl refl refl wr'])
  from file_done_process_file[OF this]
  show "process_file env win f st =
           (None,
            \<lparr>world = w2,
             log = log st @
               (if ?missing then [MkPath (leOutputDir win)] else []) @
               map (\<lambda>i. Write (path_join ?od
                                  (rsplit_dot_first (basename f) @ ''_'' @ show_nat i @ ''.wav''))
                          (if ndim audio > 1 then T (chunks ! i) else chunks ! i) rate)
                 [0..<length chunks] @
               [OneFinished]\<rparr>)"
    by (simp add: chunk_outputs_def comp_def)
  show "distinct (map (\<lambda>i. path_join ?od
                              (rsplit_dot_first (basename f) @ ''_'' @ show_nat i @ ''.wav''))
                     [0..<length chunks])"
    unfolding distinct_map
    using chunk_path_inj[unfolded chunk_path_def] by (auto intro!: inj_onI)
  show "channels (if ndim audio > 1 then T c else c) = channels audio"
    if "same_layout (if ndim audio > 1 then T audio else audio) c" for c
    using that by (rule layout_restored)
qed

section \<open>Properties of the preview plot\<close>

lemma map_filter_append: "List.map_filter f (xs @ ys) = List.map_filter f xs @ List.map_filter f ys"
  by (simp add: List.map_filter_def)

lemma map_filter_none: "(\<And>x. x \<in> set xs \<Longrightarrow> f x = None) \<Longrightarrow> List.map_filter f xs = []"
  by (induction xs) simp_all

lemma style_axes_no_bar: "List.map_filter bar_data (style_axes pal) = []"
  by (simp add: style_axes_def)

lemma waveform_no_bar: "List.map_filter bar_data (plot_waveform self pal) = []"
  by (simp add: plot_waveform_def Let_def map_filter_append style_axes_no_bar)

lemma cuts_no_bar: "List.map_filter bar_data (plot_cuts ranges pal) = []"
  by (rule map_filter_none) (auto simp: plot_cuts_def Let_def)

lemma distribution_bars:
  "\<exists>cs. plot_distribution pal = Some cs \<and>
        List.map_filter bar_data cs =
          [([''<2'', ''<5'', ''<8'', ''<11'', ''<14'', ''<17'', ''<20'', ''>=20''],
            [1, 5, 7, 11, 13, 7, 5, 1])]"
  by (simp add: plot_distribution_def map_filter_append style_axes_no_bar)

lemma ranking_bars:
  "\<exists>cs. plot_ranking pal = Some cs \<and>
        List.map_filter bar_data cs =
          [([''#5'', ''#1'', ''#6'', ''#8'', ''#12'', ''#7''], [21, 28, 32, 36, 45, 51])]"
  by (simp add: plot_ranking_def map_filter_append style_axes_no_bar)

text \<open>
  Claim C10.  Whatever the preview object and the file name, the plot succeeds and its two
  bar plots show the items and values written in the source.
\<close>

theorem bars_are_constants:
  "map_option (List.map_filter bar_data) (plot_preview self preview_filename) =
     Some [([''<2'', ''<5'', ''<8'', ''<11'', ''<14'', ''<17'', ''<20'', ''>=20''],
            [1, 5, 7, 11, 13, 7, 5, 1]),
           ([''#5'', ''#1'', ''#6'', ''#8'', ''#12'', ''#7''],
            [21, 28, 32, 36, 45, 51])]"
proof -
  define pal where "pal = (if theme self = ''dark'' then dark_theme_palette else light_theme_palette)"
  obtain ds where ds: "plot_distribution pal = Some ds"
    and dsb: "List.map_filter bar_data (ds :: 'a plot_call list) =
          [([''<2'', ''<5'', ''<8'', ''<11'', ''<14'', ''<17'', ''<20'', ''>=20''],
            [1, 5, 7, 11, 13, 7, 5, 1])]"
    using distribution_bars by blast
  obtain rk where rk: "plot_ranking pal = Some rk"
    and rkb: "List.map_filter bar_data (rk :: 'a plot_call list) =
          [([''#5'', ''#1'', ''#6'', ''#8'', ''#12'', ''#7''], [21, 28, 32, 36, 45, 51])]"
    using ranking_bars by blast
  have "plot_preview self preview_filename =
      Some (plot_waveform self pal @ plot_cuts (get_ranges self (sil_tags self)) pal @
            ds @ rk @ [Savefig preview_filename 150])"
    unfolding plot_preview_def Let_def pal_def[symmetric] ds rk by simp
  then show ?thesis
    by (simp add: map_filter_append waveform_no_bar cuts_no_bar dsb rkb)
qed

section \<open>The properties at the concrete instances\<close>

text \<open>Claim C3 at three files of which the second fails to decode.\<close>

theorem run_stops_at_decode_failure_witness:
  "run test_env test_window [''/m/a.wav''] st0 =
     (None, \<lparr>world = [], log = [Write ''/m/a_0.wav'' stereo 44100, OneFinished]\<rparr>) \<and>
   sf_read test_env (world \<lparr>world = [], log = [Write ''/m/a_0.wav'' stereo 44100, OneFinished]\<rparr>)
     ''/m/b.wav'' = Inl (LibsndfileError ''/m/b.wav'') \<and>
   run test_env test_window ([''/m/a.wav''] @ ''/m/b.wav'' # [''/m/c.wav'']) st0 =
     (Some (LibsndfileError ''/m/b.wav''),
      \<lparr>world = [], log = [Write ''/m/a_0.wav'' stereo 44100, OneFinished]\<rparr>)"
proof -
  have h1: "run test_env test_window [''/m/a.wav''] st0 =
     (None, \<lparr>world = [], log = [Write ''/m/a_0.wav'' stereo 44100, OneFinished]\<rparr>)"
    by code_simp
  have h2: "sf_read test_env
      (world \<lparr>world = [], log = [Write ''/m/a_0.wav'' stereo 44100, OneFinished]\<rparr>)
      ''/m/b.wav'' = Inl (LibsndfileError ''/m/b.wav'')"
    by code_simp
  from run_stops_at_decode_failure[OF h1 h2, of "[''/m/c.wav'']"]
  have c: "run test_env test_window ([''/m/a.wav''] @ ''/m/b.wav'' # [''/m/c.wav'']) st0 =
     (Some (LibsndfileError ''/m/b.wav''),
      \<lparr>world = [], log = [Write ''/m/a_0.wav'' stereo 44100, OneFinished]\<rparr>)"
    by (rule conjunct1)
  show ?thesis by (rule conjI[OF h1 conjI[OF h2 c]])
qed

text \<open>
  Claim C3 as stated fails: the third file decodes, and is never processed, because the
  failure of the second ends the run with the error.
\<close>

theorem run_aborts_counterexample:
  "run test_env test_window [''/m/a.wav'', ''/m/b.wav'', ''/m/c.wav''] st0 =
     (Some (LibsndfileError ''/m/b.wav''),
      \<lparr>world = [], log = [Write ''/m/a_0.wav'' stereo 44100, OneFinished]\<rparr>) \<and>
   sf_read test_env [] ''/m/c.wav'' = Inr (stereo, 44100)"
  by code_simp

text \<open>
  Claim C4 at three files of which the second fails to decode, and at two files that both
  decode.
\<close>

theorem batch_notifications_witness:
  "completed rec_env test_window [''/m/a.wav'', ''/m/b.wav'', ''/m/c.wav''] rec_st0 = 1 \<and>
   file_done rec_env test_window ''/m/a.wav'' rec_st0
     (state_after rec_env test_window [''/m/a.wav'', ''/m/b.wav'', ''/m/c.wav''] rec_st0 1) \<and>
   filter is_signal (log (snd (run rec_env test_window [''/m/a.wav'', ''/m/b.wav'', ''/m/c.wav''] rec_st0))) =
     [OneFinished] \<and>
   completed rec_env test_window [''/m/a.wav'', ''/m/c.wav''] rec_st0 = 2 \<and>
   fst (run rec_env test_window [''/m/a.wav'', ''/m/c.wav''] rec_st0) = None \<and>
   filter is_signal (log (snd (run rec_env test_window [''/m/a.wav'', ''/m/c.wav''] rec_st0))) =
     [OneFinished, OneFinished] \<and>
   dialogs (deliver (log (snd (qthread False rec_env test_window [''/m/a.wav'', ''/m/c.wav''] rec_st0)))
             test_window) = [Information ''Audio Slicer'' ''Slicing complete!'']"
proof -
  let ?fs = "[''/m/a.wav'', ''/m/b.wav'', ''/m/c.wav'']"
  let ?gs = "[''/m/a.wav'', ''/m/c.wav'']"
  note A = batch_notifications[of rec_env test_window ?fs rec_st0 True test_window, unfolded Let_def]
  note B = batch_notifications[of rec_env test_window ?gs rec_st0 False test_window, unfolded Let_def]
  have k1: "completed rec_env test_window ?fs rec_st0 = 1" by code_simp
  have k2: "completed rec_env test_window ?gs rec_st0 = 2" by code_simp
  have l0: "log rec_st0 = []" by code_simp
  have d: "dialogs test_window = []" "app_name test_window = ''Audio Slicer''" by code_simp+
  from A[THEN conjunct2, THEN conjunct2, THEN conjunct1]
  have s0: "state_after rec_env test_window ?fs rec_st0 0 = rec_st0" .
  from A[THEN conjunct2, THEN conjunct2, THEN conjunct2, THEN conjunct1] k1
  have "file_done rec_env test_window (?fs ! 0) (state_after rec_env test_window ?fs rec_st0 0)
      (state_after rec_env test_window ?fs rec_st0 (Suc 0))" by simp
  then have a1: "file_done rec_env test_window ''/m/a.wav'' rec_st0
      (state_after rec_env test_window ?fs rec_st0 1)"
    unfolding s0 by simp
  from A[THEN conjunct2, THEN conjunct2, THEN conjunct2, THEN conjunct2, THEN conjunct2, THEN conjunct1]
  have a2: "filter is_signal (log (snd (run rec_env test_window ?fs rec_st0))) = [OneFinished]"
    unfolding k1 l0 by simp
  from B[THEN conjunct2, THEN conjunct1] k2
  have b1: "fst (run rec_env test_window ?gs rec_st0) = None" by simp
  from B[THEN conjunct2, THEN conjunct2, THEN conjunct2, THEN conjunct2, THEN conjunct2, THEN conjunct1]
  have b2: "filter is_signal (log (snd (run rec_env test_window ?gs rec_st0))) = [OneFinished, OneFinished]"
    unfolding k2 l0 by (simp add: numeral_2_eq_2)
  from B[THEN conjunct2, THEN conjunct2, THEN conjunct2, THEN conjunct2, THEN conjunct2, THEN conjunct2,
         THEN conjunct2, THEN mp, OF l0, THEN conjunct2]
  have b3: "dialogs (deliver (log (snd (qthread False rec_env test_window ?gs rec_st0))) test_window) =
      [Information ''Audio Slicer'' ''Slicing complete!'']"
    unfolding d using b1 by simp
  show ?thesis by (rule conjI[OF k1 conjI[OF a1 conjI[OF a2 conjI[OF k2 conjI[OF b1 conjI[OF b2 b3]]]]]])
qed

text \<open>
  Claim C5 at a stereo file of two chunks and an output directory that does not exist yet.
\<close>

theorem chunk_files_written_witness:
  "sf_read rec_env (world rec_st0) ''/m/a.wav'' = Inr (stereo, 44100) \<and>
   slice rec_env \<lparr>sr = 44100, threshold = 0, min_length = 0, min_interval = 0,
                  slicer_hop_size = 0, max_sil_kept = 0\<rparr>
     (if ndim stereo > 1 then T stereo else stereo) [] 0 = Inr [Arr2 2 1 [1, 2], Arr2 2 1 [3, 4]] \<and>
   fst (process_file rec_env out_window ''/m/a.wav'' rec_st0) = None \<and>
   world (snd (process_file rec_env out_window ''/m/a.wav'' rec_st0)) =
     ([''/out''], [(''/out/a_0.wav'', Arr2 1 2 [1, 2], 44100), (''/out/a_1.wav'', Arr2 1 2 [3, 4], 44100)])"
proof -
  have rd: "sf_read rec_env (world rec_st0) ''/m/a.wav'' = Inr (stereo, 44100)" by code_simp
  have th: "py_float rec_env (leThreshold out_window) = Inr 0" by code_simp
  have ml: "py_int rec_env (leMinLen out_window) = Inr 0" by code_simp
  have mi: "py_int rec_env (leMinInterval out_window) = Inr 0" by code_simp
  have hs: "py_int rec_env (leHopSize out_window) = Inr 0" by code_simp
  have ms: "py_int rec_env (leMaxSilence out_window) = Inr 0" by code_simp
  have tg: "get_slice_tags rec_env
               \<lparr>sr = 44100, threshold = 0, min_length = 0, min_interval = 0,
                slicer_hop_size = 0, max_sil_kept = 0\<rparr>
               (if ndim stereo > 1 then T stereo else stereo) = Inr ([], 0)" by code_simp
  have sl: "slice rec_env
               \<lparr>sr = 44100, threshold = 0, min_length = 0, min_interval = 0,
                slicer_hop_size = 0, max_sil_kept = 0\<rparr>
               (if ndim stereo > 1 then T stereo else stereo) [] 0 =
            Inr [Arr2 2 1 [1, 2], Arr2 2 1 [3, 4]]" by code_simp
  have wr: "write_all rec_env
               (map (\<lambda>i. (path_join (if leOutputDir out_window = [] then dirname (abspath rec_env ''/m/a.wav'')
                                     else leOutputDir out_window)
                            (rsplit_dot_first (basename ''/m/a.wav'') @ ''_'' @ show_nat i @ ''.wav''),
                          (if ndim stereo > 1 then T ([Arr2 2 1 [1, 2], Arr2 2 1 [3, 4]] ! i)
                           else [Arr2 2 1 [1, 2], Arr2 2 1 [3, 4]] ! i), 44100))
                  [0..<length [Arr2 2 1 [1, 2], Arr2 2 1 [3, 4 :: int]]])
               (if leOutputDir out_window \<noteq> [] \<and> \<not> qdir_exists rec_env (world rec_st0) (leOutputDir out_window)
                then qdir_mkpath rec_env (leOutputDir out_window) (world rec_st0) else world rec_st0) =
            Inr ([''/out''], [(''/out/a_0.wav'', Arr2 1 2 [1, 2], 44100),
                             (''/out/a_1.wav'', Arr2 1 2 [3, 4], 44100)])" by code_simp
  from chunk_files_written[OF rd th ml mi hs ms tg sl wr]
  have c: "process_file rec_env out_window ''/m/a.wav'' rec_st0 =
      (None, \<lparr>world = ([''/out''], [(''/out/a_0.wav'', Arr2 1 2 [1, 2], 44100),
                                     (''/out/a_1.wav'', Arr2 1 2 [3, 4], 44100)]),
              log = log rec_st0 @
               (if leOutputDir out_window \<noteq> [] \<and> \<not> qdir_exists rec_env (world rec_st0) (leOutputDir out_window)
                then [MkPath (leOutputDir out_window)] else []) @
               map (\<lambda>i. Write (path_join (if leOutputDir out_window = [] then dirname (abspath rec_env ''/m/a.wav'')
                                           else leOutputDir out_window)
                                  (rsplit_dot_first (basename ''/m/a.wav'') @ ''_'' @ show_nat i @ ''.wav''))
                          (if ndim stereo > 1 then T ([Arr2 2 1 [1, 2], Arr2 2 1 [3, 4]] ! i)
                           else [Arr2 2 1 [1, 2], Arr2 2 1 [3, 4]] ! i) 44100)
                 [0..<length [Arr2 2 1 [1, 2], Arr2 2 1 [3, 4 :: int]]] @
               [OneFinished]\<rparr>)"
    by (rule conjunct1)
  have f: "fst (process_file rec_env out_window ''/m/a.wav'' rec_st0) = None"
    unfolding c by (rule fst_conv)
  have w: "world (snd (process_file rec_env out_window ''/m/a.wav'' rec_st0)) =
     ([''/out''], [(''/out/a_0.wav'', Arr2 1 2 [1, 2], 44100), (''/out/a_1.wav'', Arr2 1 2 [3, 4], 44100)])"
    unfolding c snd_conv by (rule wstate.select_convs)
  show ?thesis by (rule conjI[OF rd conjI[OF sl conjI[OF f w]]])
qed

lemma initial_test_window: "initial test_window"
  by (simp add: initial_def test_window_def)

text \<open>Claim C6 at the window reached by adding two files and starting.\<close>

theorem on_start_rejected_while_processing_witness:
  "reachable (on_start loaded_window) \<and> processing (on_start loaded_window) \<and>
   on_start (on_start loaded_window) =
     (on_start loaded_window)\<lparr>dialogs := dialogs (on_start loaded_window) @
        [Warning (app_name (on_start loaded_window)) ''Please wait for slicing to complete!'']\<rparr> \<and>
   length (workers (on_start loaded_window)) \<le> 1"
proof -
  have r: "reachable (on_start loaded_window)"
    unfolding loaded_window_def
    by (intro reachable.start reachable.add reachable.init initial_test_window)
  have p: "processing (on_start loaded_window)" by code_simp
  from on_start_rejected_while_processing[OF r] p
  have c: "on_start (on_start loaded_window) =
     (on_start loaded_window)\<lparr>dialogs := dialogs (on_start loaded_window) @
        [Warning (app_name (on_start loaded_window)) ''Please wait for slicing to complete!'']\<rparr>"
    and w: "length (workers (on_start loaded_window)) \<le> 1" by blast+
  show ?thesis by (rule conjI[OF r conjI[OF p conjI[OF c w]]])
qed

text \<open>Claim C7 at the initial window.\<close>

theorem on_start_empty_noop_witness:
  "reachable test_window \<and> length (lwTaskList test_window) = 0 \<and>
   on_start test_window = test_window"
proof -
  have r: "reachable test_window" by (rule reachable.init[OF initial_test_window])
  have e: "length (lwTaskList test_window) = 0" by (simp add: test_window_def)
  from on_start_empty_noop[OF r e] r e show ?thesis by blast
qed

text \<open>Claim C9 at four URLs, two of which are local .wav files.\<close>

theorem drop_appends_wav_files_witness:
  "map item_path (lwTaskList (dropEvent test_urls test_window)) = [''/m/a.WAV'', ''/m/d.wav''] \<and>
   accepted (dragEnterEvent test_urls \<lparr>accepted = False\<rparr>)"
proof -
  have f: "filter wav_url test_urls =
     [\<lparr>isLocalFile = True, toLocalFile = ''/m/a.WAV''\<rparr>,
      \<lparr>isLocalFile = True, toLocalFile = ''/m/d.wav''\<rparr>]"
    by code_simp
  have ex: "\<exists>u\<in>set test_urls. wav_url u" by code_simp
  have l: "lwTaskList test_window = []" by (simp add: test_window_def)
  from drop_appends_wav_files[of test_urls test_window "\<lparr>accepted = False\<rparr>"]
  have a: "map item_path (lwTaskList (dropEvent test_urls test_window)) =
      map item_path (lwTaskList test_window) @ map toLocalFile (filter wav_url test_urls)"
    and b: "accepted (dragEnterEvent test_urls \<lparr>accepted = False\<rparr>) =
      (accepted \<lparr>accepted = False\<rparr> \<or> (\<exists>u\<in>set test_urls. wav_url u))"
    by blast+
  from a have "map item_path (lwTaskList (dropEvent test_urls test_window)) = [''/m/a.WAV'', ''/m/d.wav'']"
    unfolding f l by simp
  moreover from b ex have "accepted (dragEnterEvent test_urls \<lparr>accepted = False\<rparr>)" by blast
  ultimately show ?thesis by (rule conjI)
qed

end
